theory Spec2Isabelle
  imports Complex_Main "HOL-Library.Log_Nat"
begin

section \<open>Aggregation: the per-contribution pillar mean\<close>

text \<open>
  Scores and means are Python floats: IEEE 754 doubles. A finite double is a rational
  number, so a float is modelled as the rational it denotes, and an operation that rounds
  is modelled by rounding its exact rational result to the nearest double, ties to the
  even significand (\<open>float_round\<close>).

  \<open>floor_log2 q\<close> is the binary exponent of a positive rational: the integer \<open>k\<close> with
  \<open>2^k \<le> q < 2^(k+1)\<close>. It lies one or zero below the difference of the bit lengths of
  numerator and denominator.
\<close>

definition floor_log2 :: "rat \<Rightarrow> int" where
  "floor_log2 q =
     (let (a, b) = quotient_of q; k = bitlen a - bitlen b
      in if 2 powi k \<le> q then k else k - 1)"

definition round_half_even :: "rat \<Rightarrow> int" where
  "round_half_even x =
     (let f = \<lfloor>x\<rfloor>; d = x - of_int f
      in if d < 1 / 2 then f
         else if d > 1 / 2 then f + 1
         else if even f then f else f + 1)"

text \<open>
  A double has a significand of 53 bits, and its least exponent is that of the subnormal
  numbers, whose unit is \<open>2^-1074\<close>. The result is not bounded above here: the caller
  checks for overflow.
\<close>

definition float_round :: "rat \<Rightarrow> rat" where
  "float_round q =
     (if q = 0 then 0
      else (let e = max (floor_log2 \<bar>q\<bar> - 52) (- 1074);
                m = round_half_even (\<bar>q\<bar> / 2 powi e)
            in sgn q * of_int m * 2 powi e))"

text \<open>
  \<open>statistics.mean\<close> adds its data as exact fractions, divides the sum by the count
  and converts the quotient to a float, which rounds it. On an empty list it raises
  \<open>StatisticsError\<close>, and the conversion raises \<open>OverflowError\<close> when the rounded
  quotient is beyond the largest double: both are the value \<open>None\<close>.
\<close>

definition statistics_mean :: "rat list \<Rightarrow> rat option" where
  "statistics_mean data =
     (if data = [] then None
      else (let r = float_round (sum_list data / of_nat (length data))
            in if \<bar>r\<bar> \<ge> 2 ^ 1024 then None else Some r))"

text \<open>The slice \<open>xs[1:-1]\<close>: from index 1 up to, not including, the last index.\<close>

definition slice_1_m1 :: "'a list \<Rightarrow> 'a list" where
  "slice_1_m1 xs = drop 1 (take (length xs - 1) xs)"

text \<open>
  \<^verbatim>\<open>
  def calc_mean(scores):
      if not scores:
          return 100.0
      if len(scores) >= 4:
          return statistics.mean(sorted(scores)[1:-1])
      return statistics.mean(scores)
  \<close>
\<close>

definition calc_mean :: "rat list \<Rightarrow> rat option" where
  "calc_mean scores =
     (if scores = [] then Some 100
      else if length scores \<ge> 4 then statistics_mean (slice_1_m1 (sort scores))
      else statistics_mean scores)"

text \<open>
  The specification's reading of the trimmed mean: sort the list, take out one occurrence
  of the least value and one occurrence of the greatest value, and average what is left.
\<close>

definition spec_trimmed :: "rat list \<Rightarrow> rat list" where
  "spec_trimmed scores =
     remove1 (Max (set scores)) (remove1 (Min (set scores)) (sort scores))"

section \<open>Text\<close>

text \<open>
  Python strings are sequences of code points. A \<^typ>\<open>char\<close> stands for one code point
  below 256; on these, \<open>str.isspace\<close>, \<open>str.lower\<close> and the classes of the
  regular expressions are the tables written out here.
\<close>

definition isspace :: "char \<Rightarrow> bool" where
  "isspace c = (c \<in> set [CHR 0x09, CHR 0x0A, CHR 0x0B, CHR 0x0C, CHR 0x0D, CHR 0x1C,
                            CHR 0x1D, CHR 0x1E, CHR 0x1F, CHR 0x20, CHR 0x85, CHR 0xA0])"

definition lower_char :: "char \<Rightarrow> char" where
  "lower_char c =
     (let n = (of_char c :: nat)
      in if (65 \<le> n \<and> n \<le> 90) \<or> (192 \<le> n \<and> n \<le> 222 \<and> n \<noteq> 215)
         then char_of (n + 32) else c)"

definition lower :: "string \<Rightarrow> string" where
  "lower s = map lower_char s"

definition strip :: "string \<Rightarrow> string" where
  "strip s = rev (dropWhile isspace (rev (dropWhile isspace s)))"

definition startswith :: "string \<Rightarrow> string \<Rightarrow> bool" where
  "startswith s p = (take (length p) s = p)"

definition endswith :: "string \<Rightarrow> string \<Rightarrow> bool" where
  "endswith s p = (length p \<le> length s \<and> drop (length s - length p) s = p)"

text \<open>The substring test \<open>p in s\<close>.\<close>

fun contains :: "string \<Rightarrow> string \<Rightarrow> bool" where
  "contains [] p = (p = [])"
| "contains (c # cs) p = (startswith (c # cs) p \<or> contains cs p)"

text \<open>How an f-string prints a value that may be \<open>None\<close>.\<close>

definition fmt :: "string option \<Rightarrow> string" where
  "fmt v = (case v of None \<Rightarrow> ''None'' | Some s \<Rightarrow> s)"

section \<open>Regular expressions of the repository patterns\<close>

text \<open>
  The six patterns of \<open>REPO_PATTERNS\<close> have two shapes: a literal followed by
  \<open>([^/]+)/([^/\s\?#]+)\<close>, and a literal followed by \<open>(\d+)\<close>. Both groups are greedy
  runs over a character class, so a match at a position, when there is one, takes the
  longest run; \<open>[^/]+\<close> must end just before a \<open>/\<close>. \<open>re.search\<close> tries the
  positions from left to right. The literals are lower case and matched with
  \<open>re.IGNORECASE\<close>.
\<close>

datatype pattern = OwnerName string | RecordId string

definition ci_startswith :: "string \<Rightarrow> string \<Rightarrow> bool" where
  "ci_startswith s lit = (lower (take (length lit) s) = lit)"

definition name_char :: "char \<Rightarrow> bool" where
  "name_char c = (c \<noteq> CHR ''/'' \<and> \<not> isspace c \<and> c \<noteq> CHR ''?'' \<and> c \<noteq> CHR ''#'')"

definition is_digit :: "char \<Rightarrow> bool" where
  "is_digit c = (c \<in> set ''0123456789'')"

text \<open>A match anchored at the start of \<open>s\<close>: the list of its groups.\<close>

definition match_here :: "pattern \<Rightarrow> string \<Rightarrow> string list option" where
  "match_here pat s =
     (case pat of
        OwnerName lit \<Rightarrow>
          (if ci_startswith s lit then
             (let rest = drop (length lit) s;
                  g1 = takeWhile (\<lambda>c. c \<noteq> CHR ''/'') rest
              in case dropWhile (\<lambda>c. c \<noteq> CHR ''/'') rest of
                   [] \<Rightarrow> None
                 | _ # t \<Rightarrow>
                     (let g2 = takeWhile name_char t
                      in if g1 \<noteq> [] \<and> g2 \<noteq> [] then Some [g1, g2] else None))
           else None)
      | RecordId lit \<Rightarrow>
          (if ci_startswith s lit then
             (let g1 = takeWhile is_digit (drop (length lit) s)
              in if g1 \<noteq> [] then Some [g1] else None)
           else None))"

fun re_search :: "pattern \<Rightarrow> string \<Rightarrow> string list option" where
  "re_search pat [] = match_here pat []"
| "re_search pat (c # cs) =
     (case match_here pat (c # cs) of
        Some m \<Rightarrow> Some m
      | None \<Rightarrow> re_search pat cs)"

text \<open>
  \<open>re.sub(r'\.git$', '', s)\<close>: \<open>$\<close> matches at the end of the string and just before
  a newline that ends it.
\<close>

definition re_sub_git :: "string \<Rightarrow> string" where
  "re_sub_git s =
     (if endswith s ''.git'' then take (length s - 4) s
      else if endswith s (''.git'' @ [CHR 0x0A]) then take (length s - 5) s @ [CHR 0x0A]
      else s)"

section \<open>The classifier\<close>

definition REPO_PATTERNS :: "(pattern \<times> string) list" where
  "REPO_PATTERNS =
     [(OwnerName ''github.com/'', ''github''),
      (OwnerName ''gitlab.com/'', ''gitlab''),
      (OwnerName ''bitbucket.org/'', ''bitbucket''),
      (RecordId ''zenodo.org/record/'', ''zenodo''),
      (RecordId ''doi.org/10.5281/zenodo.'', ''zenodo''),
      (OwnerName ''huggingface.co/'', ''huggingface'')]"

definition ONTOLOGY_PREFIXES :: "(string \<times> string) list" where
  "ONTOLOGY_PREFIXES =
     [(''wikidata:'', ''wikidata''), (''wd:'', ''wikidata''),
      (''http://www.wikidata.org/'', ''wikidata''), (''https://www.wikidata.org/'', ''wikidata''),
      (''http://purl.org/'', ''purl''), (''https://purl.org/'', ''purl''),
      (''http://www.w3.org/'', ''w3''), (''https://www.w3.org/'', ''w3''),
      (''http://schema.org/'', ''schema.org''), (''https://schema.org/'', ''schema.org''),
      (''http://dbpedia.org/'', ''dbpedia''), (''https://dbpedia.org/'', ''dbpedia''),
      (''doi:'', ''doi''), (''orcid:'', ''orcid'')]"

definition REPRO_KEYWORDS :: "string list" where
  "REPRO_KEYWORDS =
     [''source code'', ''code'', ''implementation'', ''repository'', ''github'',
      ''dataset'', ''data'', ''benchmark'', ''model'', ''method'', ''url'',
      ''download'', ''license'', ''software'', ''script'', ''notebook'',
      ''framework'', ''library'', ''tool'', ''approach'', ''technique'', ''algorithm'']"

text \<open>
  The loop of \<open>extract_repo_info\<close> over the patterns: the first pattern with a match
  decides. A zenodo pattern has one group; the other patterns have two, and reading a
  group the match does not have raises \<open>IndexError\<close>, which no entry of
  \<open>REPO_PATTERNS\<close> can do (the result \<open>None\<close> of those branches).
\<close>

fun extract_loop :: "(pattern \<times> string) list \<Rightarrow> string \<Rightarrow> (string \<times> string \<times> string) option" where
  "extract_loop [] url = None"
| "extract_loop ((pat, repo_type) # ps) url =
     (case re_search pat url of
        None \<Rightarrow> extract_loop ps url
      | Some m \<Rightarrow>
          (if repo_type = ''zenodo'' then
             (case m of g1 # _ \<Rightarrow> Some (repo_type, ''zenodo'', g1) | [] \<Rightarrow> None)
           else
             (case m of g1 # g2 # _ \<Rightarrow> Some (repo_type, g1, re_sub_git g2) | _ \<Rightarrow> None)))"

definition extract_repo_info :: "string \<Rightarrow> (string \<times> string \<times> string) option" where
  "extract_repo_info url = (if url = [] then None else extract_loop REPO_PATTERNS url)"

fun ontology_loop :: "(string \<times> string) list \<Rightarrow> string \<Rightarrow> string \<Rightarrow> string option" where
  "ontology_loop [] obj_id v = None"
| "ontology_loop ((prefix, source) # ps) obj_id v =
     (if contains (lower obj_id) (lower prefix) \<or> contains (lower v) (lower prefix)
      then Some source else ontology_loop ps obj_id v)"

definition get_ontology_source :: "string \<Rightarrow> string \<Rightarrow> string option" where
  "get_ontology_source obj_id v = ontology_loop ONTOLOGY_PREFIXES obj_id v"

definition is_repro_relevant :: "string \<Rightarrow> bool" where
  "is_repro_relevant label = list_ex (\<lambda>kw. contains (lower label) kw) REPRO_KEYWORDS"

text \<open>
  A raw statement, as \<open>process_property\<close> reads it: the predicate's \<open>id\<close> (which may be
  absent) and \<open>label\<close>, and the object's \<open>label\<close> and \<open>id\<close> after \<open>str(...)\<close> and its
  \<open>_class\<close> (\<open>"literal"\<close> when absent).
\<close>

record statement =
  stmt_predicate_id :: "string option"
  stmt_predicate_label :: string
  stmt_object_label :: string
  stmt_object_id :: string
  stmt_object_class :: string

text \<open>The dictionary \<open>process_property\<close> returns; \<open>prop_value\<close> is its key \<open>"value"\<close>.\<close>

record property =
  predicate_id :: "string option"
  predicate_label :: string
  object_id :: string
  object_class :: string
  property_type :: string
  prop_value :: string
  is_url :: bool
  is_repo_url :: bool
  repo_type :: "string option"
  repo_owner :: "string option"
  repo_name :: "string option"
  is_resource :: bool
  is_ontology_linked :: bool
  ontology_source :: "string option"
  is_literal :: bool
  reproducibility_relevant :: bool

definition process_property :: "statement \<Rightarrow> property" where
  "process_property stmt =
     (let pred_label = stmt_predicate_label stmt;
          v = stmt_object_label stmt;
          obj_id = stmt_object_id stmt;
          obj_class = stmt_object_class stmt;
          is_url = (startswith v ''http://'' \<or> startswith v ''https://'');
          (prop_type, repo_info, is_repo, onto_source) =
            (if is_url then
               (let repo_info = extract_repo_info v
                in (''url'', repo_info, repo_info \<noteq> None, None))
             else if obj_class = ''resource'' then
               (''resource'', None, False, get_ontology_source obj_id v)
             else
               (''literal'', None, False, None))
      in \<lparr> predicate_id = stmt_predicate_id stmt,
           predicate_label = pred_label,
           object_id = obj_id,
           object_class = obj_class,
           property_type = prop_type,
           prop_value = v,
           is_url = is_url,
           is_repo_url = is_repo,
           repo_type = map_option fst repo_info,
           repo_owner = map_option (fst \<circ> snd) repo_info,
           repo_name = map_option (snd \<circ> snd) repo_info,
           is_resource = (prop_type = ''resource''),
           is_ontology_linked = (onto_source \<noteq> None),
           ontology_source = onto_source,
           is_literal = (prop_type = ''literal''),
           reproducibility_relevant = is_repro_relevant pred_label \<rparr>)"

section \<open>The balanced collector\<close>

datatype category = Url_repo | Url_other | Resource_onto | Resource_internal | Literal

text \<open>The keys of the counter dictionaries, in the order the source inserts them.\<close>

definition categories :: "category list" where
  "categories = [Url_repo, Url_other, Resource_onto, Resource_internal, Literal]"

definition get_property_category :: "property \<Rightarrow> category" where
  "get_property_category prop =
     (if property_type prop = ''url'' then
        (if is_repo_url prop then Url_repo else Url_other)
      else if property_type prop = ''resource'' then
        (if is_ontology_linked prop then Resource_onto else Resource_internal)
      else Literal)"

definition count_contribution_types :: "property list \<Rightarrow> category \<Rightarrow> nat" where
  "count_contribution_types repro_props =
     fold (\<lambda>p counts. counts (get_property_category p := counts (get_property_category p) + 1))
       repro_props (\<lambda>_. 0)"

definition is_balanced :: "(category \<Rightarrow> nat) \<Rightarrow> int \<Rightarrow> bool" where
  "is_balanced type_counts min_per_type =
     list_all (\<lambda>t. int (type_counts t) \<ge> min_per_type) categories"

definition get_needed_types :: "(category \<Rightarrow> nat) \<Rightarrow> int \<Rightarrow> category list" where
  "get_needed_types type_counts min_per_type =
     filter (\<lambda>t. int (type_counts t) < min_per_type) categories"

definition contribution_helps_balance ::
    "(category \<Rightarrow> nat) \<Rightarrow> (category \<Rightarrow> nat) \<Rightarrow> int \<Rightarrow> bool" where
  "contribution_helps_balance contrib_types type_counts min_per_type =
     list_ex (\<lambda>t. contrib_types t > 0) (get_needed_types type_counts min_per_type)"

text \<open>
  What the paper source answers. A paper of a page carries its \<open>id\<close>, \<open>title\<close>
  (\<open>"Unknown"\<close> when absent), the \<open>doi\<close> list of its identifiers and its contributions;
  a contribution carries its \<open>id\<close> and \<open>label\<close> (\<open>"Contribution"\<close> when absent).
\<close>

record raw_contribution =
  rc_id :: string
  rc_label :: string

record paper =
  p_id :: "string option"
  p_title :: string
  p_doi :: "string list"
  p_contributions :: "raw_contribution list"

text \<open>
  The record appended for an accepted contribution. Its time stamp \<open>collected_at\<close> is
  left out.
\<close>

record contribution =
  contribution_id :: string
  contribution_label :: string
  paper_id :: "string option"
  paper_title :: string
  paper_doi :: "string option"
  all_properties :: "property list"
  reproducibility_properties :: "property list"

text \<open>
  The loop's variables. \<open>iterations\<close> is not a variable of the source: it counts how
  often the body of the \<open>while\<close> loop has been entered.
\<close>

record collector =
  contributions :: "contribution list"
  type_counts :: "category \<Rightarrow> nat"
  page :: nat
  iterations :: nat

text \<open>
  \<open>make_request\<close> catches every exception and returns \<open>None\<close>. A page request is a
  function from the page number to \<open>None\<close> or the \<open>content\<close> list of the answer (empty
  when the key is absent); a bundle request is a function from the contribution id to
  \<open>None\<close> or the \<open>statements\<close> list of the answer.
\<close>

type_synonym page_source = "nat \<Rightarrow> paper list option"
type_synonym bundle_source = "string \<Rightarrow> statement list option"

definition max_pages :: nat where
  "max_pages = 1000"

definition stop_scan :: "int \<Rightarrow> int \<Rightarrow> collector \<Rightarrow> bool" where
  "stop_scan min_per_type max_contributions st =
     (is_balanced (type_counts st) min_per_type \<or>
      int (length (contributions st)) \<ge> max_contributions)"

definition accept :: "paper \<Rightarrow> raw_contribution \<Rightarrow> property list \<Rightarrow> property list \<Rightarrow>
    (category \<Rightarrow> nat) \<Rightarrow> collector \<Rightarrow> collector" where
  "accept pap contrib all_props repro_props contrib_types st =
     st \<lparr> contributions := contributions st @
            [\<lparr> contribution_id = rc_id contrib,
               contribution_label = rc_label contrib,
               paper_id = p_id pap,
               paper_title = p_title pap,
               paper_doi = (case p_doi pap of [] \<Rightarrow> None | d # _ \<Rightarrow> Some d),
               all_properties = all_props,
               reproducibility_properties = repro_props \<rparr>],
          type_counts := (\<lambda>cat. type_counts st cat + contrib_types cat) \<rparr>"

text \<open>The loop over the contributions of one paper: \<open>break\<close> returns the state.\<close>

fun scan_contributions ::
    "int \<Rightarrow> int \<Rightarrow> bundle_source \<Rightarrow> paper \<Rightarrow> raw_contribution list \<Rightarrow> collector \<Rightarrow> collector" where
  "scan_contributions min_per_type max_contributions fetch_bundle pap [] st = st"
| "scan_contributions min_per_type max_contributions fetch_bundle pap (contrib # rest) st =
     (if stop_scan min_per_type max_contributions st then st
      else
        (let statements = (case fetch_bundle (rc_id contrib) of None \<Rightarrow> [] | Some ss \<Rightarrow> ss)
         in if statements = [] then
              scan_contributions min_per_type max_contributions fetch_bundle pap rest st
            else
              (let all_props = map process_property statements;
                   repro_props = filter reproducibility_relevant all_props
               in if repro_props = [] then
                    scan_contributions min_per_type max_contributions fetch_bundle pap rest st
                  else
                    (let contrib_types = count_contribution_types repro_props
                     in if \<not> is_balanced (type_counts st) min_per_type \<and>
                           \<not> contribution_helps_balance contrib_types (type_counts st) min_per_type \<and>
                           length (contributions st) > 50 then
                          scan_contributions min_per_type max_contributions fetch_bundle pap rest st
                        else
                          scan_contributions min_per_type max_contributions fetch_bundle pap rest
                            (accept pap contrib all_props repro_props contrib_types st)))))"

text \<open>The loop over the papers of one page.\<close>

fun scan_papers ::
    "int \<Rightarrow> int \<Rightarrow> bundle_source \<Rightarrow> paper list \<Rightarrow> collector \<Rightarrow> collector" where
  "scan_papers min_per_type max_contributions fetch_bundle [] st = st"
| "scan_papers min_per_type max_contributions fetch_bundle (pap # rest) st =
     (if stop_scan min_per_type max_contributions st then st
      else scan_papers min_per_type max_contributions fetch_bundle rest
             (scan_contributions min_per_type max_contributions fetch_bundle pap
                (p_contributions pap) st))"

text \<open>
  The \<open>while\<close> loop over the pages. A failed page request and an empty page both leave
  the loop (\<open>break\<close>).
\<close>

function collect_loop ::
    "int \<Rightarrow> int \<Rightarrow> page_source \<Rightarrow> bundle_source \<Rightarrow> collector \<Rightarrow> collector" where
  "collect_loop min_per_type max_contributions fetch_page fetch_bundle st =
     (if \<not> is_balanced (type_counts st) min_per_type \<and> page st < max_pages \<and>
         int (length (contributions st)) < max_contributions then
        (case fetch_page (page st) of
           None \<Rightarrow> st \<lparr> iterations := iterations st + 1 \<rparr>
         | Some papers \<Rightarrow>
             (if papers = [] then st \<lparr> iterations := iterations st + 1 \<rparr>
              else collect_loop min_per_type max_contributions fetch_page fetch_bundle
                     ((scan_papers min_per_type max_contributions fetch_bundle papers st)
                        \<lparr> page := page st + 1, iterations := iterations st + 1 \<rparr>)))
      else st)"
  by pat_completeness auto
termination
  by (relation "measure (\<lambda>(m, c, fp, fb, st). max_pages - page st)") auto

declare collect_loop.simps [simp del]

definition initial :: collector where
  "initial = \<lparr> contributions = [], type_counts = (\<lambda>_. 0), page = 0, iterations = 0 \<rparr>"

definition collect_contributions ::
    "int \<Rightarrow> int \<Rightarrow> page_source \<Rightarrow> bundle_source \<Rightarrow> contribution list" where
  "collect_contributions min_per_type max_contributions fetch_page fetch_bundle =
     contributions (collect_loop min_per_type max_contributions fetch_page fetch_bundle initial)"

section \<open>The scorer\<close>

text \<open>
  The live checks are the only network access of the evaluation. Every call of
  \<open>check_url\<close>, \<open>check_github\<close> or \<open>check_zenodo\<close> is a probe; the evaluation threads
  the list of probes made so far, and what a probe answers may depend on that history as
  well as on its arguments. The answers are the tuples the three functions return;
  \<open>check_url\<close> catches every exception, and the two license lookups are taken to
  return, as they do on the JSON objects their services answer with.
\<close>

datatype probe = Url_probe string | Github_probe string string | Zenodo_probe string

record network =
  check_url :: "probe list \<Rightarrow> string \<Rightarrow> bool \<times> string"
  check_github :: "probe list \<Rightarrow> string \<Rightarrow> string \<Rightarrow> bool \<times> string \<times> string"
  check_zenodo :: "probe list \<Rightarrow> string \<Rightarrow> bool \<times> string \<times> string"

text \<open>
  \<^verbatim>\<open>
  def check_license(repo_type, owner, repo):
      if repo_type == "github":
          return check_github(owner, repo)
      elif repo_type == "zenodo":
          return check_zenodo(repo)
      return (False, "", f"Unsupported: {repo_type}")
  \<close>
\<close>

definition check_license ::
    "network \<Rightarrow> string option \<Rightarrow> string option \<Rightarrow> string option \<Rightarrow> probe list \<Rightarrow>
     (bool \<times> string \<times> string) \<times> probe list" where
  "check_license net rtype owner repo hist =
     (if rtype = Some ''github'' then
        (check_github net hist (fmt owner) (fmt repo), hist @ [Github_probe (fmt owner) (fmt repo)])
      else if rtype = Some ''zenodo'' then
        (check_zenodo net hist (fmt repo), hist @ [Zenodo_probe (fmt repo)])
      else ((False, [], ''Unsupported: '' @ fmt rtype), hist))"

definition get_tier :: "rat \<Rightarrow> string" where
  "get_tier score =
     (if score \<ge> 80 then ''Excellent''
      else if score \<ge> 60 then ''Good''
      else if score \<ge> 40 then ''Fair''
      else ''Poor'')"

record PropertyEval =
  pe_contribution_id :: string
  pe_paper_id :: "string option"
  pe_paper_title :: string
  pe_predicate_id :: "string option"
  pe_predicate_label :: string
  pe_object_id :: string
  pe_property_type :: string
  pe_value :: string
  pe_availability :: rat
  pe_availability_reason :: string
  pe_accessibility :: rat
  pe_accessibility_reason :: string
  pe_linkability :: rat
  pe_linkability_reason :: string
  pe_license :: rat
  pe_license_reason :: string
  pe_repo_type :: "string option"
  pe_ontology_source :: "string option"
  pe_license_name :: string

record ContributionEval =
  ce_contribution_id :: string
  ce_paper_id :: "string option"
  ce_paper_title :: string
  ce_num_properties :: nat
  ce_availability :: rat
  ce_accessibility :: rat
  ce_linkability :: rat
  ce_license :: rat
  ce_overall :: rat
  ce_tier :: string
  ce_properties :: "PropertyEval list"

text \<open>
  The four pillar blocks of the loop body of \<open>evaluate_contribution\<close>, each a score
  and its reason.
  \<^verbatim>\<open>
  if value and value.strip() and value.lower() not in ["n/a", "none", "null"]:
      avail, avail_r = 100.0, "Valid: has value"
  else:
      avail, avail_r = 0.0, "Not Valid: empty/null"
  \<close>
\<close>

definition availability :: "string \<Rightarrow> rat \<times> string" where
  "availability v =
     (if v \<noteq> [] \<and> strip v \<noteq> [] \<and> lower v \<notin> set [''n/a'', ''none'', ''null'']
      then (100, ''Valid: has value'')
      else (0, ''Not Valid: empty/null''))"

definition accessibility ::
    "network \<Rightarrow> bool \<Rightarrow> property \<Rightarrow> probe list \<Rightarrow> (rat \<times> string) \<times> probe list" where
  "accessibility net check_access p hist =
     (if property_type p = ''url'' then
        (if check_access then
           (let (ok, reason) = check_url net hist (prop_value p)
            in ((if ok then 100 else 0,
                 if ok then ''Valid: '' @ reason else ''Not Valid: '' @ reason),
                hist @ [Url_probe (prop_value p)]))
         else ((100, ''Skipped''), hist))
      else ((100, ''Inapplicable (not URL)''), hist))"

definition linkability :: "property \<Rightarrow> rat \<times> string" where
  "linkability p =
     (if property_type p = ''resource'' then
        (if is_ontology_linked p then
           (100, ''Valid: linked to '' @ fmt (ontology_source p))
         else (0, ''Not Valid: internal ORKG resource '' @ object_id p))
      else (100, ''Inapplicable (not resource)''))"

definition license ::
    "network \<Rightarrow> bool \<Rightarrow> property \<Rightarrow> probe list \<Rightarrow> (rat \<times> string \<times> string) \<times> probe list" where
  "license net check_lic p hist =
     (if property_type p = ''url'' \<and> is_repo_url p then
        (if check_lic then
           (let ((has_lic, name, reason), hist') =
                  check_license net (repo_type p) (repo_owner p) (repo_name p) hist
            in ((if has_lic then 100 else 0,
                 if has_lic then ''Valid: '' @ reason else ''Not Valid: '' @ reason,
                 name), hist'))
         else ((100, ''Skipped'', []), hist))
      else ((100, ''Inapplicable (not repo URL)'', []), hist))"

text \<open>One pass of the loop body: the \<open>PropertyEval\<close> of a property.\<close>

definition evaluate_property ::
    "network \<Rightarrow> bool \<Rightarrow> bool \<Rightarrow> contribution \<Rightarrow> property \<Rightarrow> probe list \<Rightarrow>
     PropertyEval \<times> probe list" where
  "evaluate_property net check_access check_lic contrib p hist =
     (let v = prop_value p;
          (avail, avail_r) = availability v;
          ((access, access_r), hist1) = accessibility net check_access p hist;
          (link, link_r) = linkability p;
          ((lic, lic_r, lic_name), hist2) = license net check_lic p hist1
      in (\<lparr> pe_contribution_id = contribution_id contrib,
            pe_paper_id = paper_id contrib,
            pe_paper_title = paper_title contrib,
            pe_predicate_id = predicate_id p,
            pe_predicate_label = predicate_label p,
            pe_object_id = object_id p,
            pe_property_type = property_type p,
            pe_value = take 150 v,
            pe_availability = avail, pe_availability_reason = avail_r,
            pe_accessibility = access, pe_accessibility_reason = access_r,
            pe_linkability = link, pe_linkability_reason = link_r,
            pe_license = lic, pe_license_reason = lic_r,
            pe_repo_type = repo_type p,
            pe_ontology_source = ontology_source p,
            pe_license_name = lic_name \<rparr>, hist2))"

text \<open>The loop \<open>for p in props\<close>: the evaluations in order, and the probes made.\<close>

fun evaluate_properties ::
    "network \<Rightarrow> bool \<Rightarrow> bool \<Rightarrow> contribution \<Rightarrow> property list \<Rightarrow> probe list \<Rightarrow>
     PropertyEval list \<times> probe list" where
  "evaluate_properties net check_access check_lic contrib [] hist = ([], hist)"
| "evaluate_properties net check_access check_lic contrib (p # ps) hist =
     (let (e, hist1) = evaluate_property net check_access check_lic contrib p hist;
          (es, hist2) = evaluate_properties net check_access check_lic contrib ps hist1
      in (e # es, hist2))"

text \<open>
  \<open>evaluate_contribution\<close>: the result is \<open>None\<close> when \<open>statistics.mean\<close> raises. The
  score lists \<open>avail_scores\<close>, ... are the columns of the evaluations.
\<close>

definition evaluate_contribution ::
    "network \<Rightarrow> contribution \<Rightarrow> bool \<Rightarrow> bool \<Rightarrow> probe list \<Rightarrow>
     ContributionEval option \<times> probe list" where
  "evaluate_contribution net contrib check_access check_lic hist =
     (let props = reproducibility_properties contrib;
          (evals, hist') = evaluate_properties net check_access check_lic contrib props hist
      in (case calc_mean (map pe_availability evals) of None \<Rightarrow> None | Some avail_mean \<Rightarrow>
          (case calc_mean (map pe_accessibility evals) of None \<Rightarrow> None | Some access_mean \<Rightarrow>
          (case calc_mean (map pe_linkability evals) of None \<Rightarrow> None | Some link_mean \<Rightarrow>
          (case calc_mean (map pe_license evals) of None \<Rightarrow> None | Some lic_mean \<Rightarrow>
          (case statistics_mean [avail_mean, access_mean, link_mean, lic_mean] of
             None \<Rightarrow> None
           | Some overall \<Rightarrow>
               Some \<lparr> ce_contribution_id = contribution_id contrib,
                      ce_paper_id = paper_id contrib,
                      ce_paper_title = paper_title contrib,
                      ce_num_properties = length props,
                      ce_availability = avail_mean, ce_accessibility = access_mean,
                      ce_linkability = link_mean, ce_license = lic_mean,
                      ce_overall = overall, ce_tier = get_tier overall,
                      ce_properties = evals \<rparr>)))), hist'))"

section \<open>The detailed export\<close>





section \<open>Auxiliary notions and sample inputs\<close>

text \<open>
  Every entry of a pattern list pairs a one-group pattern with the type \<open>zenodo\<close> and a
  two-group pattern with another type, as the branch of \<open>extract_repo_info\<close> expects.
\<close>

definition shaped :: "(pattern \<times> string) list \<Rightarrow> bool" where
  "shaped ps =
     list_all (\<lambda>(pat, t). case pat of OwnerName _ \<Rightarrow> t \<noteq> ''zenodo'' | RecordId _ \<Rightarrow> t = ''zenodo'') ps"

definition stmt_dot_git :: statement where
  "stmt_dot_git = \<lparr> stmt_predicate_id = Some ''P1'', stmt_predicate_label = ''source code'',
     stmt_object_label = ''https://github.com/foo/.git'', stmt_object_id = ''L1'',
     stmt_object_class = ''literal'' \<rparr>"

definition stmt_bar_git :: statement where
  "stmt_bar_git = \<lparr> stmt_predicate_id = Some ''P1'', stmt_predicate_label = ''source code'',
     stmt_object_label = ''https://GitHub.com/foo/bar.git?tab=readme'', stmt_object_id = ''L2'',
     stmt_object_class = ''literal'' \<rparr>"

definition stmt_resource_url :: statement where
  "stmt_resource_url = \<lparr> stmt_predicate_id = Some ''P2'', stmt_predicate_label = ''dataset'',
     stmt_object_label = ''https://zenodo.org/record/12345'', stmt_object_id = ''R7'',
     stmt_object_class = ''resource'' \<rparr>"

definition net_up :: network where
  "net_up = \<lparr> check_url = (\<lambda>h u. (True, ''HTTP 200'')),
              check_github = (\<lambda>h owner repo. (True, ''MIT License'', ''License: MIT License'')),
              check_zenodo = (\<lambda>h record. (True, ''cc-by-4.0'', ''License: cc-by-4.0'')) \<rparr>"

definition net_down :: network where
  "net_down = \<lparr> check_url = (\<lambda>h u. (False, ''Error: timed out'')),
                check_github = (\<lambda>h owner repo. (False, [], ''API failed'')),
                check_zenodo = (\<lambda>h record. (False, [], ''API failed'')) \<rparr>"

definition stmt_internal :: statement where
  "stmt_internal = \<lparr> stmt_predicate_id = Some ''P3'', stmt_predicate_label = ''method'',
     stmt_object_label = ''Random forest'', stmt_object_id = ''R123'',
     stmt_object_class = ''resource'' \<rparr>"

definition stmt_padded_null :: statement where
  "stmt_padded_null = \<lparr> stmt_predicate_id = Some ''P4'', stmt_predicate_label = ''license'',
     stmt_object_label = '' n/a '', stmt_object_id = ''L9'',
     stmt_object_class = ''literal'' \<rparr>"

definition contrib_sample :: contribution where
  "contrib_sample =
     \<lparr> contribution_id = ''R1000'', contribution_label = ''Contribution 1'',
       paper_id = Some ''R999'', paper_title = ''A paper'', paper_doi = None,
       all_properties = [],
       reproducibility_properties =
         map process_property [stmt_bar_git, stmt_internal, stmt_padded_null] \<rparr>"

definition paper_sample :: paper where
  "paper_sample = \<lparr> p_id = Some ''R999'', p_title = ''A paper'', p_doi = [''10.1000/xyz''],
     p_contributions = [\<lparr> rc_id = ''R1000'', rc_label = ''Contribution 1'' \<rparr>,
                        \<lparr> rc_id = ''R1001'', rc_label = ''Contribution 2'' \<rparr>] \<rparr>"

definition pages_first_fails :: page_source where
  "pages_first_fails n = (if n = 0 then None else if n = 1 then Some [paper_sample] else Some [])"

definition pages_sample :: page_source where
  "pages_sample n = (if n < 3 then Some [paper_sample] else Some [])"

definition bundles_sample :: bundle_source where
  "bundles_sample cid =
     (if cid = ''R1000'' then None
      else if cid = ''R1001'' then Some [stmt_bar_git, stmt_internal]
      else Some [])"

section \<open>Properties of the aggregation\<close>

lemma slice_1_m1_butlast_tl: "slice_1_m1 xs = butlast (tl xs)"
  by (simp add: slice_1_m1_def butlast_conv_take drop_Suc drop_take tl_take)

lemma all_same_butlast:
  "ys \<noteq> [] \<Longrightarrow> \<forall>z \<in> set ys. z = y \<Longrightarrow> y # butlast ys = ys"
  by (induction ys) auto

lemma sorted_le_last:
  "sorted ys \<Longrightarrow> z \<in> set ys \<Longrightarrow> z \<le> (last ys :: 'a :: linorder)"
  by (induction ys) auto

lemma remove1_last_sorted:
  "sorted ys \<Longrightarrow> ys \<noteq> [] \<Longrightarrow> remove1 (last ys) ys = butlast (ys :: 'a :: linorder list)"
proof (induction ys)
  case Nil
  then show ?case by simp
next
  case (Cons y ys)
  show ?case
  proof (cases "ys = []")
    case True
    then show ?thesis by simp
  next
    case False
    from Cons False have ih: "remove1 (last ys) ys = butlast ys" by simp
    show ?thesis
    proof (cases "y = last ys")
      case True
      have "\<forall>z \<in> set ys. z = y"
      proof
        fix z assume z: "z \<in> set ys"
        with Cons.prems have "y \<le> z" by auto
        moreover from Cons.prems z have "z \<le> last ys"
          by (simp add: sorted_le_last)
        ultimately show "z = y" using True by simp
      qed
      with False have "y # butlast ys = ys" by (rule all_same_butlast)
      with False True show ?thesis by simp
    next
      case False
      with \<open>ys \<noteq> []\<close> ih show ?thesis by simp
    qed
  qed
qed

lemma sorted_hd_le:
  "sorted ys \<Longrightarrow> z \<in> set ys \<Longrightarrow> hd ys \<le> (z :: 'a :: linorder)"
  by (cases ys) auto

lemma hd_sort_Min:
  assumes "scores \<noteq> []"
  shows "hd (sort scores) = Min (set (scores :: 'a :: linorder list))"
proof -
  have ne: "sort scores \<noteq> []" using assms by (cases scores) auto
  have "Min (set (sort scores)) = hd (sort scores)"
  proof (rule Min_eqI)
    show "finite (set (sort scores))" by simp
    show "\<And>y. y \<in> set (sort scores) \<Longrightarrow> hd (sort scores) \<le> y"
      by (rule sorted_hd_le) simp_all
    show "hd (sort scores) \<in> set (sort scores)" using ne by (rule hd_in_set)
  qed
  then show ?thesis by simp
qed

lemma last_sort_Max:
  assumes "scores \<noteq> []"
  shows "last (sort scores) = Max (set (scores :: 'a :: linorder list))"
proof -
  have ne: "sort scores \<noteq> []" using assms by (cases scores) auto
  have "Max (set (sort scores)) = last (sort scores)"
  proof (rule Max_eqI)
    show "finite (set (sort scores))" by simp
    show "\<And>y. y \<in> set (sort scores) \<Longrightarrow> y \<le> last (sort scores)"
      by (rule sorted_le_last) simp_all
    show "last (sort scores) \<in> set (sort scores)" using ne by (rule last_in_set)
  qed
  then show ?thesis by simp
qed

lemma spec_trimmed_slice:
  assumes "scores \<noteq> []"
  shows "spec_trimmed scores = slice_1_m1 (sort scores)"
proof -
  let ?s = "sort scores"
  have ne: "?s \<noteq> []" using assms by (cases scores) auto
  have hd_min: "hd ?s = Min (set scores)" using assms by (rule hd_sort_Min)
  have last_max: "last ?s = Max (set scores)" using assms by (rule last_sort_Max)
  have r1: "remove1 (Min (set scores)) ?s = tl ?s"
    using ne hd_min by (cases ?s) auto
  show ?thesis
  proof (cases "tl ?s = []")
    case True
    then show ?thesis
      by (simp add: spec_trimmed_def r1 slice_1_m1_butlast_tl)
  next
    case False
    then have "last (tl ?s) = Max (set scores)"
      using last_max by (simp add: last_tl)
    moreover have "sorted (tl ?s)" by (simp add: sorted_tl)
    ultimately have "remove1 (Max (set scores)) (tl ?s) = butlast (tl ?s)"
      using False remove1_last_sorted [of "tl ?s"] by simp
    then show ?thesis
      by (simp add: spec_trimmed_def r1 slice_1_m1_butlast_tl)
  qed
qed

lemma floor_log2_le:
  assumes "0 < q"
  shows "2 powi floor_log2 q \<le> q"
proof -
  obtain a b where ab: "quotient_of q = (a, b)" by (cases "quotient_of q")
  then have b: "0 < b" by (rule quotient_of_denom_pos)
  from ab have q: "q = of_int a / of_int b" by (rule quotient_of_div)
  with assms b have a: "0 < a" by (simp add: zero_less_divide_iff)
  let ?k = "bitlen a - bitlen b"
  show ?thesis
  proof (cases "2 powi ?k \<le> q")
    case True
    then show ?thesis by (simp add: floor_log2_def ab)
  next
    case False
    from bitlen_bounds [OF a] have "(2::int) ^ nat (bitlen a - 1) \<le> a" by simp
    then have "(of_int ((2::int) ^ nat (bitlen a - 1)) :: rat) \<le> of_int a"
      by (simp only: of_int_le_iff)
    then have la: "(2::rat) ^ nat (bitlen a - 1) \<le> of_int a" by simp
    from bitlen_bounds [OF b] have "b < (2::int) ^ nat (bitlen b)" by simp
    then have "(of_int b :: rat) < of_int ((2::int) ^ nat (bitlen b))"
      by (simp only: of_int_less_iff)
    then have lb: "(of_int b :: rat) \<le> 2 ^ nat (bitlen b)" by simp
    have pa: "1 \<le> bitlen a" using a by (auto simp: bitlen_alt_def)
    have pb: "0 \<le> bitlen b" by (rule bitlen_nonneg)
    have "(2::rat) powi (?k - 1) = 2 powi (bitlen a - 1) / 2 powi (bitlen b)"
      using power_int_diff [of "2::rat" "bitlen a - 1" "bitlen b"] by (simp add: algebra_simps)
    also have "\<dots> = 2 ^ nat (bitlen a - 1) / 2 ^ nat (bitlen b)"
      using pa pb by (simp add: power_int_def)
    also have "\<dots> \<le> of_int a / of_int b"
      using la lb a b by (intro frac_le) simp_all
    finally have "(2::rat) powi (?k - 1) \<le> q" by (simp add: q)
    with False show ?thesis by (simp add: floor_log2_def ab)
  qed
qed

lemma floor_log2_less:
  assumes "0 < q"
  shows "q < 2 powi (floor_log2 q + 1)"
proof -
  obtain a b where ab: "quotient_of q = (a, b)" by (cases "quotient_of q")
  then have b: "0 < b" by (rule quotient_of_denom_pos)
  from ab have q: "q = of_int a / of_int b" by (rule quotient_of_div)
  with assms b have a: "0 < a" by (simp add: zero_less_divide_iff)
  let ?k = "bitlen a - bitlen b"
  show ?thesis
  proof (cases "2 powi ?k \<le> q")
    case False
    then show ?thesis by (simp add: floor_log2_def ab)
  next
    case True
    from bitlen_bounds [OF a] have "a < (2::int) ^ nat (bitlen a)" by simp
    then have "(of_int a :: rat) < of_int ((2::int) ^ nat (bitlen a))"
      by (simp only: of_int_less_iff)
    then have la: "(of_int a :: rat) < 2 ^ nat (bitlen a)" by simp
    from bitlen_bounds [OF b] have "(2::int) ^ nat (bitlen b - 1) \<le> b" by simp
    then have "(of_int ((2::int) ^ nat (bitlen b - 1)) :: rat) \<le> of_int b"
      by (simp only: of_int_le_iff)
    then have lb: "(2::rat) ^ nat (bitlen b - 1) \<le> of_int b" by simp
    have pa: "0 \<le> bitlen a" by (rule bitlen_nonneg)
    have pb: "1 \<le> bitlen b" using b by (auto simp: bitlen_alt_def)
    have "of_int a / of_int b < (2::rat) ^ nat (bitlen a) / 2 ^ nat (bitlen b - 1)"
      using la lb a b by (intro frac_less) simp_all
    also have "\<dots> = 2 powi (bitlen a) / 2 powi (bitlen b - 1)"
      using pa pb by (simp add: power_int_def)
    also have "\<dots> = (2::rat) powi (?k + 1)"
      using power_int_diff [of "2::rat" "bitlen a" "bitlen b - 1"] by (simp add: algebra_simps)
    finally have "q < (2::rat) powi (?k + 1)" by (simp add: q)
    with True show ?thesis by (simp add: floor_log2_def ab)
  qed
qed

lemma round_half_even_nonneg:
  assumes "0 \<le> x"
  shows "0 \<le> round_half_even x"
proof -
  from assms have "0 \<le> \<lfloor>x\<rfloor>" by simp
  then show ?thesis by (simp add: round_half_even_def Let_def)
qed

lemma round_half_even_le:
  assumes "x \<le> of_int n"
  shows "round_half_even x \<le> n"
proof (cases "x = of_int \<lfloor>x\<rfloor>")
  case True
  then have "x - of_int \<lfloor>x\<rfloor> < 1 / 2" by simp
  then have "round_half_even x = \<lfloor>x\<rfloor>" by (simp add: round_half_even_def Let_def)
  moreover from assms have "\<lfloor>x\<rfloor> \<le> n" by (simp add: floor_le_iff) 
  ultimately show ?thesis by simp
next
  case False
  then have "of_int \<lfloor>x\<rfloor> \<noteq> x" by (rule not_sym)
  then have "of_int \<lfloor>x\<rfloor> < x"
    using of_int_floor_le [of x] by (rule order.not_eq_order_implies_strict)
  with assms have "(of_int \<lfloor>x\<rfloor> :: rat) < of_int n" by linarith
  then have "\<lfloor>x\<rfloor> < n" by (simp only: of_int_less_iff)
  moreover have "round_half_even x \<le> \<lfloor>x\<rfloor> + 1"
    by (simp add: round_half_even_def Let_def)
  ultimately show ?thesis by simp
qed

lemma float_round_bounds:
  assumes "0 \<le> q" "q \<le> 100"
  shows "0 \<le> float_round q \<and> float_round q \<le> 100"
proof (cases "q = 0")
  case True
  then show ?thesis by (simp add: float_round_def)
next
  case False
  with assms have pos: "0 < q" by simp
  define e where "e = max (floor_log2 q - 52) (- 1074)"
  define m where "m = round_half_even (q / 2 powi e)"
  have fr: "float_round q = of_int m * 2 powi e"
    using pos by (simp add: float_round_def Let_def e_def m_def)
  have "floor_log2 q < 7"
  proof (rule ccontr)
    assume "\<not> floor_log2 q < 7"
    then have "7 \<le> floor_log2 q" by simp
    then have "(2::rat) powi 7 \<le> 2 powi floor_log2 q"
      by (intro power_int_increasing) simp_all
    also have "\<dots> \<le> q" using pos by (rule floor_log2_le)
    finally show False using assms(2) by simp
  qed
  then have e0: "e \<le> 0" by (simp add: e_def)
  define n where "n = nat (- e)"
  have pe: "(2::rat) powi e = 1 / 2 ^ n"
    using e0 by (simp add: power_int_def n_def inverse_eq_divide power_one_over)
  have x: "q / 2 powi e = q * 2 ^ n" by (simp add: pe)
  have m0: "0 \<le> m" unfolding m_def x
    using pos by (intro round_half_even_nonneg) simp
  have "q * 2 ^ n \<le> of_int (100 * 2 ^ n)" using assms(2) by simp
  then have mN: "m \<le> 100 * 2 ^ n" unfolding m_def x by (rule round_half_even_le)
  then have "(of_int m :: rat) \<le> of_int (100 * 2 ^ n)" by (simp only: of_int_le_iff)
  then have "(of_int m :: rat) \<le> 100 * 2 ^ n" by simp
  then have "of_int m / 2 ^ n \<le> (100::rat)" by (simp add: divide_le_eq)
  moreover have "0 \<le> (of_int m :: rat) / 2 ^ n" using m0 by simp
  ultimately show ?thesis by (simp add: fr pe)
qed

lemma sum_list_bounds:
  fixes xs :: "rat list"
  assumes "\<forall>x \<in> set xs. 0 \<le> x \<and> x \<le> 100"
  shows "0 \<le> sum_list xs \<and> sum_list xs \<le> 100 * of_nat (length xs)"
  using assms by (induction xs) (auto simp: algebra_simps)

lemma statistics_mean_bounds:
  fixes xs :: "rat list"
  assumes "xs \<noteq> []" "\<forall>x \<in> set xs. 0 \<le> x \<and> x \<le> 100"
  shows "statistics_mean xs = Some (float_round (sum_list xs / of_nat (length xs))) \<and>
         0 \<le> float_round (sum_list xs / of_nat (length xs)) \<and>
         float_round (sum_list xs / of_nat (length xs)) \<le> 100"
proof -
  from assms(1) have pos: "(0::rat) < of_nat (length xs)" by simp
  from sum_list_bounds [OF assms(2)]
  have "0 \<le> sum_list xs / of_nat (length xs)" "sum_list xs / of_nat (length xs) \<le> 100"
    using pos by (simp_all add: divide_le_eq)
  from float_round_bounds [OF this]
  have b: "0 \<le> float_round (sum_list xs / of_nat (length xs))"
    "float_round (sum_list xs / of_nat (length xs)) \<le> 100" by simp_all
  have "(100::rat) < 2 ^ 1024" by simp
  with b have "\<not> \<bar>float_round (sum_list xs / of_nat (length xs))\<bar> \<ge> 2 ^ 1024"
    by linarith
  with assms(1) b show ?thesis by (simp add: statistics_mean_def Let_def)
qed

lemma slice_1_m1_subset: "set (slice_1_m1 xs) \<subseteq> set xs"
proof -
  have "set (slice_1_m1 xs) \<subseteq> set (take (length xs - 1) xs)"
    unfolding slice_1_m1_def by (rule set_drop_subset)
  also have "\<dots> \<subseteq> set xs" by (rule set_take_subset)
  finally show ?thesis .
qed

text \<open>
  Claim C1. For a list of four or more scores, \<open>calc_mean\<close> is the mean, as
  \<open>statistics.mean\<close> computes it, of the sorted list with exactly one least and one
  greatest element taken out (also when the extreme values occur several times): two
  elements leave the list. For one to three scores it is the mean of all of them, and
  for no scores it is 100. For scores between 0 and 100 that mean is the exact
  arithmetic mean rounded to the nearest float.
\<close>

theorem calc_mean_trimmed:
  "(length scores \<ge> 4 \<longrightarrow>
      calc_mean scores = statistics_mean (spec_trimmed scores) \<and>
      length (spec_trimmed scores) = length scores - 2) \<and>
   (1 \<le> length scores \<and> length scores \<le> 3 \<longrightarrow>
      calc_mean scores = statistics_mean scores) \<and>
   (scores = [] \<longrightarrow> calc_mean scores = Some 100) \<and>
   ((\<forall>x \<in> set scores. 0 \<le> x \<and> x \<le> 100) \<longrightarrow>
      (length scores \<ge> 4 \<longrightarrow>
         calc_mean scores =
           Some (float_round (sum_list (spec_trimmed scores) / of_nat (length scores - 2)))) \<and>
      (1 \<le> length scores \<and> length scores \<le> 3 \<longrightarrow>
         calc_mean scores = Some (float_round (sum_list scores / of_nat (length scores)))))"
proof (intro conjI impI)
  assume len: "length scores \<ge> 4"
  then have ne: "scores \<noteq> []" by auto
  then show "calc_mean scores = statistics_mean (spec_trimmed scores)"
    using len by (simp add: calc_mean_def spec_trimmed_slice)
  show "length (spec_trimmed scores) = length scores - 2"
    using ne by (simp add: spec_trimmed_slice slice_1_m1_def)
next
  assume "1 \<le> length scores \<and> length scores \<le> 3"
  then show "calc_mean scores = statistics_mean scores"
    by (auto simp: calc_mean_def)
next
  assume "scores = []"
  then show "calc_mean scores = Some 100" by (simp add: calc_mean_def)
next
  assume rng: "\<forall>x \<in> set scores. 0 \<le> x \<and> x \<le> 100" and len: "length scores \<ge> 4"
  then have ne: "scores \<noteq> []" by auto
  have tr: "spec_trimmed scores = slice_1_m1 (sort scores)"
    using ne by (rule spec_trimmed_slice)
  have l: "length (spec_trimmed scores) = length scores - 2"
    by (simp add: tr slice_1_m1_def)
  with len have tne: "spec_trimmed scores \<noteq> []" by auto
  have "set (spec_trimmed scores) \<subseteq> set scores"
    using slice_1_m1_subset [of "sort scores"] by (simp add: tr)
  with rng have "\<forall>x \<in> set (spec_trimmed scores). 0 \<le> x \<and> x \<le> 100" by blast
  from statistics_mean_bounds [OF tne this] l
  have "statistics_mean (spec_trimmed scores) =
      Some (float_round (sum_list (spec_trimmed scores) / of_nat (length scores - 2)))"
    by simp
  then show "calc_mean scores =
      Some (float_round (sum_list (spec_trimmed scores) / of_nat (length scores - 2)))"
    using len ne by (simp add: calc_mean_def tr)
next
  assume rng: "\<forall>x \<in> set scores. 0 \<le> x \<and> x \<le> 100"
    and len: "1 \<le> length scores \<and> length scores \<le> 3"
  then have ne: "scores \<noteq> []" by auto
  from statistics_mean_bounds [OF ne rng] len ne
  show "calc_mean scores = Some (float_round (sum_list scores / of_nat (length scores)))"
    by (simp add: calc_mean_def)
qed

theorem calc_mean_trimmed_witness:
  "spec_trimmed [100, 0, 0, 100, 100] = [0, 100, 100] \<and>
   calc_mean [100, 0, 0, 100, 100] = Some (4691249611844267 / 70368744177664) \<and>
   calc_mean [100, 0, 100] = Some (4691249611844267 / 70368744177664) \<and>
   calc_mean [] = Some 100"
proof -
  have r: "\<forall>x \<in> set [100, 0, 0, 100, 100 :: rat]. 0 \<le> x \<and> x \<le> 100"
    "\<forall>x \<in> set [100, 0, 100 :: rat]. 0 \<le> x \<and> x \<le> 100"
    by simp_all
  have t: "spec_trimmed [100, 0, 0, 100, 100] = [0, 100, 100]"
    by (simp add: spec_trimmed_def)
  have f: "float_round (200 / 3) = 4691249611844267 / 70368744177664"
    by code_simp
  have l5: "length [100, 0, 0, 100, 100 :: rat] \<ge> 4" by simp
  from calc_mean_trimmed [of "[100, 0, 0, 100, 100]"] r(1) l5
  have "calc_mean [100, 0, 0, 100, 100] =
      Some (float_round (sum_list (spec_trimmed [100, 0, 0, 100, 100]) /
        of_nat (length [100, 0, 0, 100, 100 :: rat] - 2)))"
    by blast
  then have a: "calc_mean [100, 0, 0, 100, 100] = Some (float_round (200 / 3))"
    by (simp add: t)
  have l3: "1 \<le> length [100, 0, 100 :: rat] \<and> length [100, 0, 100 :: rat] \<le> 3" by simp
  from calc_mean_trimmed [of "[100, 0, 100]"] r(2) l3
  have "calc_mean [100, 0, 100] =
      Some (float_round (sum_list [100, 0, 100] / of_nat (length [100, 0, 100 :: rat])))"
    by blast
  then have b: "calc_mean [100, 0, 100] = Some (float_round (200 / 3))"
    by simp
  from calc_mean_trimmed [of "[]"] have c: "calc_mean [] = Some 100" by simp
  from t a b c f show ?thesis by simp
qed

section \<open>Properties of the classifier\<close>

lemma process_property_simps:
  "property_type (process_property stmt) =
     (if startswith (stmt_object_label stmt) ''http://'' \<or> startswith (stmt_object_label stmt) ''https://''
      then ''url'' else if stmt_object_class stmt = ''resource'' then ''resource'' else ''literal'')"
  "prop_value (process_property stmt) = stmt_object_label stmt"
  "is_repo_url (process_property stmt) =
     ((startswith (stmt_object_label stmt) ''http://'' \<or> startswith (stmt_object_label stmt) ''https://'') \<and>
      extract_repo_info (stmt_object_label stmt) \<noteq> None)"
  "repo_type (process_property stmt) =
     (if startswith (stmt_object_label stmt) ''http://'' \<or> startswith (stmt_object_label stmt) ''https://''
      then map_option fst (extract_repo_info (stmt_object_label stmt)) else None)"
  "repo_owner (process_property stmt) =
     (if startswith (stmt_object_label stmt) ''http://'' \<or> startswith (stmt_object_label stmt) ''https://''
      then map_option (fst \<circ> snd) (extract_repo_info (stmt_object_label stmt)) else None)"
  "repo_name (process_property stmt) =
     (if startswith (stmt_object_label stmt) ''http://'' \<or> startswith (stmt_object_label stmt) ''https://''
      then map_option (snd \<circ> snd) (extract_repo_info (stmt_object_label stmt)) else None)"
  by (simp_all add: process_property_def Let_def)

lemma match_here_OwnerName:
  assumes "match_here (OwnerName lit) s = Some m"
  shows "\<exists>g1 g2. m = [g1, g2] \<and> g1 \<noteq> [] \<and> g2 \<noteq> [] \<and> list_all name_char g2"
  using assms
  by (auto simp: match_here_def Let_def list_all_iff split: if_splits list.splits
           dest: set_takeWhileD)

lemma match_here_RecordId:
  assumes "match_here (RecordId lit) s = Some m"
  shows "\<exists>g1. m = [g1] \<and> g1 \<noteq> [] \<and> list_all is_digit g1"
  using assms
  by (auto simp: match_here_def Let_def list_all_iff split: if_splits dest: set_takeWhileD)

lemma re_search_OwnerName:
  "re_search (OwnerName lit) s = Some m \<Longrightarrow>
   \<exists>g1 g2. m = [g1, g2] \<and> g1 \<noteq> [] \<and> g2 \<noteq> [] \<and> list_all name_char g2"
proof (induction s)
  case Nil
  then show ?case by (simp add: match_here_OwnerName)
next
  case (Cons c cs)
  then show ?case
    by (cases "match_here (OwnerName lit) (c # cs)") (auto dest: match_here_OwnerName)
qed

lemma re_search_RecordId:
  "re_search (RecordId lit) s = Some m \<Longrightarrow>
   \<exists>g1. m = [g1] \<and> g1 \<noteq> [] \<and> list_all is_digit g1"
proof (induction s)
  case Nil
  then show ?case by (simp add: match_here_RecordId)
next
  case (Cons c cs)
  then show ?case
    by (cases "match_here (RecordId lit) (c # cs)") (auto dest: match_here_RecordId)
qed

lemma not_endswith_newline:
  assumes "list_all name_char seg"
  shows "\<not> endswith seg (''.git'' @ [CHR 0x0A])"
proof
  define p where "p = ''.git'' @ [CHR 0x0A]"
  assume "endswith seg (''.git'' @ [CHR 0x0A])"
  then have eq: "drop (length seg - length p) seg = p"
    unfolding endswith_def p_def by blast
  have "CHR 0x0A \<in> set p" by (simp add: p_def)
  with eq have "CHR 0x0A \<in> set (drop (length seg - length p) seg)" by simp
  then have "CHR 0x0A \<in> set seg" by (rule in_set_dropD)
  with assms have "name_char (CHR 0x0A)" by (simp add: list_all_iff)
  then show False by (simp add: name_char_def isspace_def)
qed

lemma re_sub_git_name:
  assumes "list_all name_char seg"
  shows "re_sub_git seg = (if endswith seg ''.git'' then take (length seg - 4) seg else seg)"
  using not_endswith_newline [OF assms] by (simp add: re_sub_git_def)

lemma re_sub_git_empty:
  assumes "list_all name_char seg" "seg \<noteq> []"
  shows "re_sub_git seg = [] \<longleftrightarrow> seg = ''.git''"
proof
  assume e: "re_sub_git seg = []"
  with assms have ends: "endswith seg ''.git''" and "take (length seg - 4) seg = []"
    by (auto simp: re_sub_git_name split: if_splits)
  then have "length seg = 4" by (auto simp: endswith_def)
  with ends show "seg = ''.git''" by (simp add: endswith_def)
next
  assume "seg = ''.git''"
  then show "re_sub_git seg = []" by (simp add: re_sub_git_def endswith_def)
qed

lemma shaped_REPO_PATTERNS: "shaped REPO_PATTERNS"
  by (simp add: shaped_def REPO_PATTERNS_def)

lemma dropWhile_Cons_not:
  "dropWhile P xs = c # t \<Longrightarrow> \<not> P c"
  using hd_dropWhile [of P xs] by auto

lemma dropWhile_hd_not:
  "dropWhile P xs = [] \<or> \<not> P (hd (dropWhile P xs))"
  using hd_dropWhile [of P xs] by blast

lemma match_here_OwnerName_split:
  assumes "match_here (OwnerName lit) s = Some m"
  shows "\<exists>hit g1 g2 post. m = [g1, g2] \<and> s = hit @ g1 @ ''/'' @ g2 @ post \<and>
           lower hit = lit \<and> g1 \<noteq> [] \<and> CHR ''/'' \<notin> set g1 \<and>
           g2 \<noteq> [] \<and> list_all name_char g2 \<and> (post = [] \<or> \<not> name_char (hd post))"
proof -
  define rest where "rest = drop (length lit) s"
  define g1 where "g1 = takeWhile (\<lambda>c. c \<noteq> CHR ''/'') rest"
  from assms have ci: "ci_startswith s lit"
    by (auto simp: match_here_def split: if_splits)
  from assms ci obtain c t where dw: "dropWhile (\<lambda>c. c \<noteq> CHR ''/'') rest = c # t"
    by (auto simp: match_here_def Let_def rest_def split: list.splits)
  define g2 where "g2 = takeWhile name_char t"
  from assms ci dw have m: "m = [g1, g2]" and ne: "g1 \<noteq> []" "g2 \<noteq> []"
    by (auto simp: match_here_def Let_def rest_def g1_def g2_def split: if_splits)
  from dw have c: "c = CHR ''/''" using dropWhile_Cons_not by fastforce
  have "rest = g1 @ dropWhile (\<lambda>c. c \<noteq> CHR ''/'') rest"
    by (simp add: g1_def)
  with dw c have r: "rest = g1 @ ''/'' @ t" by simp
  have t: "t = g2 @ dropWhile name_char t" by (simp add: g2_def)
  have "s = take (length lit) s @ rest" by (simp add: rest_def)
  with r t have s: "s = take (length lit) s @ g1 @ ''/'' @ g2 @ dropWhile name_char t"
    by simp
  have hit: "lower (take (length lit) s) = lit" using ci by (simp add: ci_startswith_def)
  have n1: "CHR ''/'' \<notin> set g1"
    unfolding g1_def by (auto dest: set_takeWhileD)
  have n2: "list_all name_char g2"
    unfolding g2_def by (auto simp: list_all_iff dest: set_takeWhileD)
  from m s hit ne n1 n2 dropWhile_hd_not [of name_char t] show ?thesis by blast
qed

lemma match_here_RecordId_split:
  assumes "match_here (RecordId lit) s = Some m"
  shows "\<exists>hit d post. m = [d] \<and> s = hit @ d @ post \<and> lower hit = lit \<and>
           d \<noteq> [] \<and> list_all is_digit d \<and> (post = [] \<or> \<not> is_digit (hd post))"
proof -
  define rest where "rest = drop (length lit) s"
  define d where "d = takeWhile is_digit rest"
  from assms have ci: "ci_startswith s lit"
    by (auto simp: match_here_def split: if_splits)
  from assms ci have m: "m = [d]" and ne: "d \<noteq> []"
    by (auto simp: match_here_def Let_def rest_def d_def split: if_splits)
  have "rest = d @ dropWhile is_digit rest" by (simp add: d_def)
  moreover have "s = take (length lit) s @ rest" by (simp add: rest_def)
  ultimately have s: "s = take (length lit) s @ d @ dropWhile is_digit rest" by simp
  have hit: "lower (take (length lit) s) = lit" using ci by (simp add: ci_startswith_def)
  have n: "list_all is_digit d"
    unfolding d_def by (auto simp: list_all_iff dest: set_takeWhileD)
  from m s hit ne n dropWhile_hd_not [of is_digit rest] show ?thesis by blast
qed

lemma re_search_OwnerName_split:
  "re_search (OwnerName lit) s = Some m \<Longrightarrow>
   \<exists>pre hit g1 g2 post. m = [g1, g2] \<and> s = pre @ hit @ g1 @ ''/'' @ g2 @ post \<and>
      lower hit = lit \<and> g1 \<noteq> [] \<and> CHR ''/'' \<notin> set g1 \<and>
      g2 \<noteq> [] \<and> list_all name_char g2 \<and> (post = [] \<or> \<not> name_char (hd post))"
proof (induction s)
  case Nil
  then have "match_here (OwnerName lit) [] = Some m" by simp
  from match_here_OwnerName_split [OF this] show ?case by (metis append_Nil)
next
  case (Cons c cs)
  show ?case
  proof (cases "match_here (OwnerName lit) (c # cs)")
    case (Some m')
    with Cons.prems have "match_here (OwnerName lit) (c # cs) = Some m" by simp
    from match_here_OwnerName_split [OF this] show ?thesis by (metis append_Nil)
  next
    case None
    with Cons.prems have "re_search (OwnerName lit) cs = Some m" by simp
    from Cons.IH [OF this] obtain pre hit g1 g2 post where
      "m = [g1, g2]" "cs = pre @ hit @ g1 @ ''/'' @ g2 @ post"
      "lower hit = lit" "g1 \<noteq> []" "CHR ''/'' \<notin> set g1"
      "g2 \<noteq> []" "list_all name_char g2" "post = [] \<or> \<not> name_char (hd post)"
      by blast
    moreover from this have "c # cs = (c # pre) @ hit @ g1 @ ''/'' @ g2 @ post" by simp
    ultimately show ?thesis by blast
  qed
qed

lemma re_search_RecordId_split:
  "re_search (RecordId lit) s = Some m \<Longrightarrow>
   \<exists>pre hit d post. m = [d] \<and> s = pre @ hit @ d @ post \<and> lower hit = lit \<and>
      d \<noteq> [] \<and> list_all is_digit d \<and> (post = [] \<or> \<not> is_digit (hd post))"
proof (induction s)
  case Nil
  then have "match_here (RecordId lit) [] = Some m" by simp
  from match_here_RecordId_split [OF this] show ?case by (metis append_Nil)
next
  case (Cons c cs)
  show ?case
  proof (cases "match_here (RecordId lit) (c # cs)")
    case (Some m')
    with Cons.prems have "match_here (RecordId lit) (c # cs) = Some m" by simp
    from match_here_RecordId_split [OF this] show ?thesis by (metis append_Nil)
  next
    case None
    with Cons.prems have "re_search (RecordId lit) cs = Some m" by simp
    from Cons.IH [OF this] obtain pre hit d post where
      "m = [d]" "cs = pre @ hit @ d @ post" "lower hit = lit"
      "d \<noteq> []" "list_all is_digit d" "post = [] \<or> \<not> is_digit (hd post)"
      by blast
    moreover from this have "c # cs = (c # pre) @ hit @ d @ post" by simp
    ultimately show ?thesis by blast
  qed
qed

lemma extract_loop_groups:
  "extract_loop ps url = Some (t, owner, name) \<Longrightarrow> shaped ps \<Longrightarrow>
   \<exists>pat rest m.
     dropWhile (\<lambda>(pat, t). re_search pat url = None) ps = (pat, t) # rest \<and>
     re_search pat url = Some m \<and>
     (case pat of
        OwnerName lit \<Rightarrow> t \<noteq> ''zenodo'' \<and>
          (\<exists>g1 g2. m = [g1, g2] \<and> owner = g1 \<and> name = re_sub_git g2)
      | RecordId lit \<Rightarrow> t = ''zenodo'' \<and>
          (\<exists>d. m = [d] \<and> owner = ''zenodo'' \<and> name = d))"
proof (induction ps)
  case Nil
  then show ?case by simp
next
  case (Cons a ps)
  obtain pat ty where a: "a = (pat, ty)" by (cases a)
  from Cons.prems(2) have sh: "shaped ps" by (simp add: shaped_def)
  show ?case
  proof (cases "re_search pat url")
    case None
    with Cons a sh show ?thesis by simp
  next
    case (Some m)
    show ?thesis
    proof (cases pat)
      case (OwnerName lit)
      with Cons.prems(2) a have nz: "ty \<noteq> ''zenodo''" by (simp add: shaped_def)
      from Some OwnerName obtain g1 g2 where m: "m = [g1, g2]"
        using re_search_OwnerName by blast
      from Cons.prems(1) a Some nz m have "t = ty" "owner = g1" "name = re_sub_git g2"
        by auto
      with nz m a Some OwnerName show ?thesis by simp
    next
      case (RecordId lit)
      with Cons.prems(2) a have z: "ty = ''zenodo''" by (simp add: shaped_def)
      from Some RecordId obtain d where m: "m = [d]"
        using re_search_RecordId by blast
      from Cons.prems(1) a Some z m have "t = ty" "owner = ''zenodo''" "name = d"
        by auto
      with z m a Some RecordId show ?thesis by simp
    qed
  qed
qed

lemma extract_loop_matches:
  "list_ex (\<lambda>(pat, t). re_search pat url \<noteq> None) ps \<Longrightarrow> shaped ps \<Longrightarrow>
   extract_loop ps url \<noteq> None"
proof (induction ps)
  case Nil
  then show ?case by simp
next
  case (Cons a ps)
  obtain pat ty where a: "a = (pat, ty)" by (cases a)
  from Cons.prems(2) have sh: "shaped ps" by (simp add: shaped_def)
  show ?case
  proof (cases "re_search pat url")
    case None
    with Cons a sh show ?thesis by simp
  next
    case (Some m)
    show ?thesis
    proof (cases pat)
      case (OwnerName lit)
      with Cons.prems(2) a have nz: "ty \<noteq> ''zenodo''" by (simp add: shaped_def)
      from Some OwnerName obtain g1 g2 where "m = [g1, g2]"
        using re_search_OwnerName by blast
      with a Some nz show ?thesis by simp
    next
      case (RecordId lit)
      with Cons.prems(2) a have z: "ty = ''zenodo''" by (simp add: shaped_def)
      from Some RecordId obtain g1 where "m = [g1]"
        using re_search_RecordId by blast
      with a Some z show ?thesis by simp
    qed
  qed
qed

text \<open>
  Claim C5. \<open>process_property\<close> gives every statement exactly one of the three types
  \<open>url\<close>, \<open>resource\<close>, \<open>literal\<close>: \<open>url\<close> exactly when the value starts with
  \<open>http://\<close> or \<open>https://\<close>; otherwise \<open>resource\<close> exactly when the object's kind is
  \<open>resource\<close>; otherwise \<open>literal\<close>. The prefix test comes first, so an object of kind
  \<open>resource\<close> whose value starts with the scheme is a \<open>url\<close>. The three type strings
  differ, so the three cases exclude each other: exactly one of the flags \<open>is_url\<close>,
  \<open>is_resource\<close>, \<open>is_literal\<close> is set.
\<close>

theorem process_property_classification:
  "property_type (process_property stmt) \<in> {''url'', ''resource'', ''literal''} \<and>
   (property_type (process_property stmt) = ''url'' \<longleftrightarrow>
      startswith (stmt_object_label stmt) ''http://'' \<or>
      startswith (stmt_object_label stmt) ''https://'') \<and>
   (property_type (process_property stmt) = ''resource'' \<longleftrightarrow>
      \<not> (startswith (stmt_object_label stmt) ''http://'' \<or>
         startswith (stmt_object_label stmt) ''https://'') \<and>
      stmt_object_class stmt = ''resource'') \<and>
   (property_type (process_property stmt) = ''literal'' \<longleftrightarrow>
      \<not> (startswith (stmt_object_label stmt) ''http://'' \<or>
         startswith (stmt_object_label stmt) ''https://'') \<and>
      stmt_object_class stmt \<noteq> ''resource'') \<and>
   is_url (process_property stmt) = (property_type (process_property stmt) = ''url'') \<and>
   is_resource (process_property stmt) = (property_type (process_property stmt) = ''resource'') \<and>
   is_literal (process_property stmt) = (property_type (process_property stmt) = ''literal'') \<and>
   ((is_url (process_property stmt) \<and> \<not> is_resource (process_property stmt) \<and>
       \<not> is_literal (process_property stmt)) \<or>
    (\<not> is_url (process_property stmt) \<and> is_resource (process_property stmt) \<and>
       \<not> is_literal (process_property stmt)) \<or>
    (\<not> is_url (process_property stmt) \<and> \<not> is_resource (process_property stmt) \<and>
       is_literal (process_property stmt)))"
  by (simp add: process_property_def Let_def)

theorem process_property_classification_witness:
  "property_type (process_property stmt_resource_url) = ''url'' \<and>
   stmt_object_class stmt_resource_url = ''resource'' \<and>
   startswith (stmt_object_label stmt_resource_url) ''https://''"
  using process_property_classification [of stmt_resource_url]
  by (simp add: stmt_resource_url_def startswith_def)

text \<open>
  Claim C6, as stated, fails: for the value \<open>https://github.com/foo/.git\<close> the github
  pattern matches with the name segment \<open>.git\<close>, the property is a repository URL, and
  its \<open>repo_name\<close> is the empty string.
\<close>

theorem repo_name_empty_counterexample:
  "property_type (process_property stmt_dot_git) = ''url'' \<and>
   re_search (OwnerName ''github.com/'') (prop_value (process_property stmt_dot_git)) =
     Some [''foo'', ''.git''] \<and>
   is_repo_url (process_property stmt_dot_git) \<and>
   repo_owner (process_property stmt_dot_git) = Some ''foo'' \<and>
   repo_name (process_property stmt_dot_git) = Some []"
  by code_simp

text \<open>
  Claim C6, amended. For a property of type \<open>url\<close> whose value matches one of the
  patterns, \<open>is_repo_url\<close> is true and \<open>repo_type\<close> is the type of the first pattern of
  the list that matches. For a pattern with owner and name the value holds, one after
  the other, the pattern's literal in any case, the owner, a \<open>/\<close> and the name segment:
  \<open>repo_owner\<close> is that owner, which is not empty, and \<open>repo_name\<close> is that segment,
  which is not empty, with one trailing \<open>.git\<close> taken off, so it is empty exactly when the
  segment is \<open>.git\<close>. For a zenodo pattern the value holds the literal and a run of
  digits: \<open>repo_owner\<close> is \<open>zenodo\<close> and \<open>repo_name\<close> is that run, which is not empty.
\<close>

theorem repo_url_fields:
  assumes url: "property_type (process_property stmt) = ''url''"
      and mat: "list_ex (\<lambda>(pat, t). re_search pat (prop_value (process_property stmt)) \<noteq> None)
                  REPO_PATTERNS"
  shows "is_repo_url (process_property stmt) \<and>
         (\<exists>pat t rest m.
            dropWhile (\<lambda>(pat, t). re_search pat (prop_value (process_property stmt)) = None)
              REPO_PATTERNS = (pat, t) # rest \<and>
            re_search pat (prop_value (process_property stmt)) = Some m \<and>
            repo_type (process_property stmt) = Some t \<and>
            (case pat of
               OwnerName lit \<Rightarrow>
                 (\<exists>pre hit owner seg post.
                    m = [owner, seg] \<and>
                    prop_value (process_property stmt) = pre @ hit @ owner @ ''/'' @ seg @ post \<and>
                    lower hit = lit \<and>
                    owner \<noteq> [] \<and> CHR ''/'' \<notin> set owner \<and>
                    seg \<noteq> [] \<and> list_all name_char seg \<and>
                    (post = [] \<or> \<not> name_char (hd post)) \<and>
                    repo_owner (process_property stmt) = Some owner \<and>
                    repo_name (process_property stmt) =
                      Some (if endswith seg ''.git'' then take (length seg - 4) seg else seg) \<and>
                    (repo_name (process_property stmt) = Some [] \<longleftrightarrow> seg = ''.git''))
             | RecordId lit \<Rightarrow>
                 (\<exists>pre hit d post.
                    m = [d] \<and>
                    prop_value (process_property stmt) = pre @ hit @ d @ post \<and>
                    lower hit = lit \<and>
                    d \<noteq> [] \<and> list_all is_digit d \<and>
                    (post = [] \<or> \<not> is_digit (hd post)) \<and>
                    repo_owner (process_property stmt) = Some ''zenodo'' \<and>
                    repo_name (process_property stmt) = Some d)))"
proof -
  let ?v = "stmt_object_label stmt"
  have pv: "prop_value (process_property stmt) = ?v" by (simp add: process_property_simps)
  from url have pre: "startswith ?v ''http://'' \<or> startswith ?v ''https://''"
    by (simp add: process_property_simps split: if_splits)
  then have ne: "?v \<noteq> []" by (auto simp: startswith_def)
  from mat have "extract_loop REPO_PATTERNS ?v \<noteq> None"
    using extract_loop_matches shaped_REPO_PATTERNS by (simp add: process_property_simps)
  then obtain t owner name where ex: "extract_loop REPO_PATTERNS ?v = Some (t, owner, name)"
    by (cases "extract_loop REPO_PATTERNS ?v") auto
  with ne have eri: "extract_repo_info ?v = Some (t, owner, name)"
    by (simp add: extract_repo_info_def)
  have a: "is_repo_url (process_property stmt)"
    using pre eri by (simp add: process_property_simps)
  have b: "repo_type (process_property stmt) = Some t"
    "repo_owner (process_property stmt) = Some owner"
    "repo_name (process_property stmt) = Some name"
    using pre eri by (simp_all add: process_property_simps)
  from extract_loop_groups [OF ex shaped_REPO_PATTERNS] obtain pat rest m where
    first: "dropWhile (\<lambda>(pat, t). re_search pat ?v = None) REPO_PATTERNS = (pat, t) # rest"
    and m: "re_search pat ?v = Some m"
    and grp: "case pat of
        OwnerName lit \<Rightarrow> t \<noteq> ''zenodo'' \<and>
          (\<exists>g1 g2. m = [g1, g2] \<and> owner = g1 \<and> name = re_sub_git g2)
      | RecordId lit \<Rightarrow> t = ''zenodo'' \<and>
          (\<exists>d. m = [d] \<and> owner = ''zenodo'' \<and> name = d)"
    by blast
  have "case pat of
      OwnerName lit \<Rightarrow>
        (\<exists>pre hit owner seg post.
           m = [owner, seg] \<and> ?v = pre @ hit @ owner @ ''/'' @ seg @ post \<and>
           lower hit = lit \<and> owner \<noteq> [] \<and> CHR ''/'' \<notin> set owner \<and>
           seg \<noteq> [] \<and> list_all name_char seg \<and>
           (post = [] \<or> \<not> name_char (hd post)) \<and>
           repo_owner (process_property stmt) = Some owner \<and>
           repo_name (process_property stmt) =
             Some (if endswith seg ''.git'' then take (length seg - 4) seg else seg) \<and>
           (repo_name (process_property stmt) = Some [] \<longleftrightarrow> seg = ''.git''))
    | RecordId lit \<Rightarrow>
        (\<exists>pre hit d post.
           m = [d] \<and> ?v = pre @ hit @ d @ post \<and> lower hit = lit \<and>
           d \<noteq> [] \<and> list_all is_digit d \<and> (post = [] \<or> \<not> is_digit (hd post)) \<and>
           repo_owner (process_property stmt) = Some ''zenodo'' \<and>
           repo_name (process_property stmt) = Some d)"
  proof (cases pat)
    case (OwnerName lit)
    from m OwnerName have m': "re_search (OwnerName lit) ?v = Some m" by simp
    from re_search_OwnerName_split [OF m'] obtain pre hit g1 g2 post where
      sp: "m = [g1, g2]" "?v = pre @ hit @ g1 @ ''/'' @ g2 @ post" "lower hit = lit"
        "g1 \<noteq> []" "CHR ''/'' \<notin> set g1" "g2 \<noteq> []" "list_all name_char g2"
        "post = [] \<or> \<not> name_char (hd post)"
      by blast
    from grp OwnerName sp(1) have on: "owner = g1" "name = re_sub_git g2" by auto
    have ro: "repo_owner (process_property stmt) = Some g1"
      using b(2) on(1) by simp
    have nm: "repo_name (process_property stmt) =
        Some (if endswith g2 ''.git'' then take (length g2 - 4) g2 else g2)"
      using b(3) on(2) sp(7) by (simp only: re_sub_git_name)
    have "name = [] \<longleftrightarrow> g2 = ''.git''"
      using on(2) sp(6,7) re_sub_git_empty by simp
    then have em: "repo_name (process_property stmt) = Some [] \<longleftrightarrow> g2 = ''.git''"
      using b(3) by simp
    have X: "m = [g1, g2] \<and> ?v = pre @ hit @ g1 @ ''/'' @ g2 @ post \<and>
       lower hit = lit \<and> g1 \<noteq> [] \<and> CHR ''/'' \<notin> set g1 \<and>
       g2 \<noteq> [] \<and> list_all name_char g2 \<and>
       (post = [] \<or> \<not> name_char (hd post)) \<and>
       repo_owner (process_property stmt) = Some g1 \<and>
       repo_name (process_property stmt) =
         Some (if endswith g2 ''.git'' then take (length g2 - 4) g2 else g2) \<and>
       (repo_name (process_property stmt) = Some [] \<longleftrightarrow> g2 = ''.git'')"
      by (intro conjI) (fact sp ro nm em)+
    show ?thesis unfolding OwnerName pattern.case
      by (rule exI [of _ pre], rule exI [of _ hit], rule exI [of _ g1], rule exI [of _ g2],
          rule exI [of _ post], rule X)
  next
    case (RecordId lit)
    from m RecordId have m': "re_search (RecordId lit) ?v = Some m" by simp
    from re_search_RecordId_split [OF m'] obtain pre hit d post where
      sp: "m = [d]" "?v = pre @ hit @ d @ post" "lower hit = lit"
        "d \<noteq> []" "list_all is_digit d" "post = [] \<or> \<not> is_digit (hd post)"
      by blast
    from grp RecordId sp(1) have on: "owner = ''zenodo''" "name = d" by auto
    have ro: "repo_owner (process_property stmt) = Some ''zenodo''"
      using b(2) on(1) by simp
    have nm: "repo_name (process_property stmt) = Some d"
      using b(3) on(2) by simp
    have X: "m = [d] \<and> ?v = pre @ hit @ d @ post \<and> lower hit = lit \<and>
       d \<noteq> [] \<and> list_all is_digit d \<and> (post = [] \<or> \<not> is_digit (hd post)) \<and>
       repo_owner (process_property stmt) = Some ''zenodo'' \<and>
       repo_name (process_property stmt) = Some d"
      by (intro conjI) (fact sp ro nm)+
    show ?thesis unfolding RecordId pattern.case
      by (rule exI [of _ pre], rule exI [of _ hit], rule exI [of _ d], rule exI [of _ post],
          rule X)
  qed
  note cs = this
  show ?thesis unfolding pv
    by (rule conjI [OF a], rule exI [of _ pat], rule exI [of _ t], rule exI [of _ rest],
        rule exI [of _ m], intro conjI, rule first, rule m, rule b(1), rule cs)
qed

theorem repo_url_fields_witness:
  "property_type (process_property stmt_bar_git) = ''url'' \<and>
   list_ex (\<lambda>(pat, t). re_search pat (prop_value (process_property stmt_bar_git)) \<noteq> None)
     REPO_PATTERNS \<and>
   is_repo_url (process_property stmt_bar_git) \<and>
   repo_owner (process_property stmt_bar_git) = Some ''foo'' \<and>
   repo_name (process_property stmt_bar_git) = Some ''bar''"
proof -
  have h1: "property_type (process_property stmt_bar_git) = ''url''"
    by code_simp
  have h2: "list_ex (\<lambda>(pat, t). re_search pat (prop_value (process_property stmt_bar_git)) \<noteq> None)
     REPO_PATTERNS"
    by code_simp
  have c: "repo_owner (process_property stmt_bar_git) = Some ''foo'' \<and>
    repo_name (process_property stmt_bar_git) = Some ''bar''"
    by code_simp
  from repo_url_fields [OF h1 h2] have "is_repo_url (process_property stmt_bar_git)"
    by (rule conjunct1)
  with h1 h2 c show ?thesis by (intro conjI) simp_all
qed

section \<open>Properties of the scorer\<close>

lemma evaluate_property_fields:
  "pe_value (fst (evaluate_property net ca cl c p h)) = take 150 (prop_value p)"
  "pe_availability (fst (evaluate_property net ca cl c p h)) = fst (availability (prop_value p))"
  "pe_availability_reason (fst (evaluate_property net ca cl c p h)) = snd (availability (prop_value p))"
  "pe_accessibility (fst (evaluate_property net ca cl c p h)) = fst (fst (accessibility net ca p h))"
  "pe_accessibility_reason (fst (evaluate_property net ca cl c p h)) =
     snd (fst (accessibility net ca p h))"
  "pe_linkability (fst (evaluate_property net ca cl c p h)) = fst (linkability p)"
  "pe_linkability_reason (fst (evaluate_property net ca cl c p h)) = snd (linkability p)"
  "pe_license (fst (evaluate_property net ca cl c p h)) =
     fst (fst (license net cl p (snd (accessibility net ca p h))))"
  "pe_license_reason (fst (evaluate_property net ca cl c p h)) =
     fst (snd (fst (license net cl p (snd (accessibility net ca p h)))))"
  "snd (evaluate_property net ca cl c p h) = snd (license net cl p (snd (accessibility net ca p h)))"
  by (simp_all add: evaluate_property_def Let_def case_prod_beta)

lemma evaluate_properties_length:
  "length (fst (evaluate_properties net ca cl c ps h)) = length ps"
  by (induction ps arbitrary: h) (simp_all add: case_prod_beta Let_def)

lemma evaluate_properties_nth:
  "i < length ps \<Longrightarrow>
   \<exists>h'. fst (evaluate_properties net ca cl c ps h) ! i =
         fst (evaluate_property net ca cl c (ps ! i) h')"
proof (induction ps arbitrary: h i)
  case Nil
  then show ?case by simp
next
  case (Cons p ps)
  show ?case
  proof (cases i)
    case 0
    then show ?thesis by (auto simp: case_prod_beta Let_def)
  next
    case (Suc j)
    with Cons.prems have "j < length ps" by simp
    from Cons.IH [OF this] Suc show ?thesis
      by (simp add: case_prod_beta Let_def)
  qed
qed


lemma evaluate_properties_availability:
  "map pe_availability (fst (evaluate_properties net ca cl c ps h)) =
   map (\<lambda>p. fst (availability (prop_value p))) ps"
  by (induction ps arbitrary: h) (simp_all add: case_prod_beta Let_def evaluate_property_fields)

lemma score_values:
  "fst (availability v) \<in> {0, 100}"
  "fst (fst (accessibility net ca p h)) \<in> {0, 100}"
  "fst (linkability p) \<in> {0, 100}"
  "fst (fst (license net cl p h)) \<in> {0, 100}"
  by (simp_all add: availability_def accessibility_def linkability_def license_def
        case_prod_beta Let_def)

lemma evaluate_property_binary:
  "pe_availability (fst (evaluate_property net ca cl c p h)) \<in> {0, 100}"
  "pe_accessibility (fst (evaluate_property net ca cl c p h)) \<in> {0, 100}"
  "pe_linkability (fst (evaluate_property net ca cl c p h)) \<in> {0, 100}"
  "pe_license (fst (evaluate_property net ca cl c p h)) \<in> {0, 100}"
  unfolding evaluate_property_fields by (rule score_values)+

lemma evaluate_properties_binary:
  assumes "e \<in> set (fst (evaluate_properties net ca cl c ps h))"
  shows "pe_availability e \<in> {0, 100} \<and> pe_accessibility e \<in> {0, 100} \<and>
         pe_linkability e \<in> {0, 100} \<and> pe_license e \<in> {0, 100}"
proof -
  from assms obtain i where i: "i < length ps" "e = fst (evaluate_properties net ca cl c ps h) ! i"
    by (metis in_set_conv_nth evaluate_properties_length)
  then obtain h' where "e = fst (evaluate_property net ca cl c (ps ! i) h')"
    using evaluate_properties_nth by blast
  then show ?thesis using evaluate_property_binary by simp
qed

lemma calc_mean_bounds:
  fixes xs :: "rat list"
  assumes "\<forall>x \<in> set xs. 0 \<le> x \<and> x \<le> 100"
  shows "\<exists>v. calc_mean xs = Some v \<and> 0 \<le> v \<and> v \<le> 100"
proof (cases "xs = []")
  case True
  then show ?thesis by (simp add: calc_mean_def)
next
  case False
  show ?thesis
  proof (cases "length xs \<ge> 4")
    case True
    have ne: "slice_1_m1 (sort xs) \<noteq> []"
      using True by (auto simp: slice_1_m1_def)
    have "set (slice_1_m1 (sort xs)) \<subseteq> set xs"
      using slice_1_m1_subset [of "sort xs"] by simp
    with assms have "\<forall>x \<in> set (slice_1_m1 (sort xs)). 0 \<le> x \<and> x \<le> 100" by blast
    from statistics_mean_bounds [OF ne this] True False show ?thesis
      by (simp add: calc_mean_def)
  next
    case False
    with \<open>xs \<noteq> []\<close> statistics_mean_bounds [OF \<open>xs \<noteq> []\<close> assms] show ?thesis
      by (simp add: calc_mean_def)
  qed
qed

lemma column_bounds:
  assumes "\<And>e. e \<in> set es \<Longrightarrow> f e \<in> {0, 100 :: rat}"
  shows "\<forall>x \<in> set (map f es). 0 \<le> x \<and> x \<le> 100"
  using assms by fastforce

lemma evaluate_properties_linkability:
  "map pe_linkability (fst (evaluate_properties net ca cl c ps h)) =
   map (\<lambda>p. fst (linkability p)) ps"
  by (induction ps arbitrary: h) (simp_all add: case_prod_beta Let_def evaluate_property_fields)

lemma evaluate_contribution_result:
  "\<exists>ev. fst (evaluate_contribution net contrib check_access check_lic hist) = Some ev \<and>
     ce_properties ev =
       fst (evaluate_properties net check_access check_lic contrib
              (reproducibility_properties contrib) hist) \<and>
     ce_num_properties ev = length (reproducibility_properties contrib) \<and>
     calc_mean (map pe_availability (ce_properties ev)) = Some (ce_availability ev) \<and>
     calc_mean (map pe_accessibility (ce_properties ev)) = Some (ce_accessibility ev) \<and>
     calc_mean (map pe_linkability (ce_properties ev)) = Some (ce_linkability ev) \<and>
     calc_mean (map pe_license (ce_properties ev)) = Some (ce_license ev) \<and>
     statistics_mean [ce_availability ev, ce_accessibility ev, ce_linkability ev, ce_license ev] =
       Some (ce_overall ev) \<and>
     ce_overall ev =
       float_round
         ((ce_availability ev + ce_accessibility ev + ce_linkability ev + ce_license ev) / 4) \<and>
     ce_tier ev = get_tier (ce_overall ev) \<and>
     0 \<le> ce_overall ev \<and> ce_overall ev \<le> 100"
proof -
  define es where
    "es = fst (evaluate_properties net check_access check_lic contrib
                 (reproducibility_properties contrib) hist)"
  have bin: "\<And>e. e \<in> set es \<Longrightarrow>
      pe_availability e \<in> {0, 100} \<and> pe_accessibility e \<in> {0, 100} \<and>
      pe_linkability e \<in> {0, 100} \<and> pe_license e \<in> {0, 100}"
    unfolding es_def by (rule evaluate_properties_binary)
  obtain a where a: "calc_mean (map pe_availability es) = Some a" "0 \<le> a" "a \<le> 100"
    using calc_mean_bounds [OF column_bounds, of es pe_availability] bin by blast
  obtain b where b: "calc_mean (map pe_accessibility es) = Some b" "0 \<le> b" "b \<le> 100"
    using calc_mean_bounds [OF column_bounds, of es pe_accessibility] bin by blast
  obtain l where l: "calc_mean (map pe_linkability es) = Some l" "0 \<le> l" "l \<le> 100"
    using calc_mean_bounds [OF column_bounds, of es pe_linkability] bin by blast
  obtain d where d: "calc_mean (map pe_license es) = Some d" "0 \<le> d" "d \<le> 100"
    using calc_mean_bounds [OF column_bounds, of es pe_license] bin by blast
  define w where "w = float_round ((a + b + l + d) / 4)"
  have "\<forall>x \<in> set [a, b, l, d]. 0 \<le> x \<and> x \<le> 100" using a b l d by simp
  from statistics_mean_bounds [OF _ this]
  have ov: "statistics_mean [a, b, l, d] = Some w" and ob: "0 \<le> w" "w \<le> 100"
    by (simp_all add: w_def algebra_simps)
  have "fst (evaluate_contribution net contrib check_access check_lic hist) =
     Some \<lparr> ce_contribution_id = contribution_id contrib,
            ce_paper_id = paper_id contrib,
            ce_paper_title = paper_title contrib,
            ce_num_properties = length (reproducibility_properties contrib),
            ce_availability = a, ce_accessibility = b,
            ce_linkability = l, ce_license = d,
            ce_overall = w, ce_tier = get_tier w,
            ce_properties = es \<rparr>"
    using a(1) b(1) l(1) d(1) ov
    by (simp add: evaluate_contribution_def Let_def case_prod_beta es_def [symmetric])
  then show ?thesis
    using a(1) b(1) l(1) d(1) ov ob by (simp add: w_def es_def)
qed

lemma evaluate_contribution_properties:
  assumes "fst (evaluate_contribution net contrib ca cl hist) = Some ev"
  shows "ce_properties ev =
         fst (evaluate_properties net ca cl contrib (reproducibility_properties contrib) hist)"
  using assms
  by (auto simp: evaluate_contribution_def Let_def case_prod_beta split: option.splits)

lemma availability_rule:
  "availability v =
     (if strip v \<noteq> [] \<and> lower v \<notin> {''n/a'', ''none'', ''null''}
      then (100, ''Valid: has value'') else (0, ''Not Valid: empty/null''))"
  by (auto simp: availability_def strip_def)

text \<open>
  Claim C2 does not hold of the code: the null-like tokens are compared with the lower-cased
  value as it is, not with the trimmed value. The value \<open>" n/a "\<close> trims to \<open>n/a\<close> and
  is scored 100 with the reason \<open>Valid: has value\<close>, while \<open>"n/a"\<close> is scored 0. The
  empty value is scored 0 with the reason \<open>Not Valid: empty/null\<close>.
\<close>

theorem availability_padded_null:
  "strip '' n/a '' = ''n/a'' \<and>
   pe_availability (fst (evaluate_property net check_access check_lic contrib
      (p \<lparr> prop_value := '' n/a '' \<rparr>) hist)) = 100 \<and>
   pe_availability_reason (fst (evaluate_property net check_access check_lic contrib
      (p \<lparr> prop_value := '' n/a '' \<rparr>) hist)) = ''Valid: has value'' \<and>
   pe_availability (fst (evaluate_property net check_access check_lic contrib
      (p \<lparr> prop_value := ''n/a'' \<rparr>) hist)) = 0 \<and>
   pe_availability (fst (evaluate_property net check_access check_lic contrib
      (p \<lparr> prop_value := [] \<rparr>) hist)) = 0 \<and>
   pe_availability_reason (fst (evaluate_property net check_access check_lic contrib
      (p \<lparr> prop_value := [] \<rparr>) hist)) = ''Not Valid: empty/null''"
proof -
  have s: "strip '' n/a '' = ''n/a''" by code_simp
  have a: "availability '' n/a '' = (100, ''Valid: has value'')" by code_simp
  have b: "availability ''n/a'' = (0, ''Not Valid: empty/null'')" by code_simp
  have c: "availability [] = (0, ''Not Valid: empty/null'')" by code_simp
  show ?thesis using s a b c by (simp add: evaluate_property_fields)
qed

text \<open>
  Claim C4. In the evaluation of a contribution, for the property at every position:
  if its type is not \<open>url\<close>, Accessibility is 100 with the reason
  \<open>Inapplicable (not URL)\<close>; if its type is not \<open>resource\<close>, Linkability is 100; if it
  is not a repository URL (type \<open>url\<close> with \<open>is_repo_url\<close>), License is 100. This holds
  for every value of the property, both settings of each live-check toggle and every
  network.
\<close>

theorem inapplicable_pillars:
  assumes res: "fst (evaluate_contribution net contrib check_access check_lic hist) = Some ev"
      and i: "i < length (reproducibility_properties contrib)"
  shows "length (ce_properties ev) = length (reproducibility_properties contrib) \<and>
    (property_type (reproducibility_properties contrib ! i) \<noteq> ''url'' \<longrightarrow>
       pe_accessibility (ce_properties ev ! i) = 100 \<and>
       pe_accessibility_reason (ce_properties ev ! i) = ''Inapplicable (not URL)'') \<and>
    (property_type (reproducibility_properties contrib ! i) \<noteq> ''resource'' \<longrightarrow>
       pe_linkability (ce_properties ev ! i) = 100 \<and>
       pe_linkability_reason (ce_properties ev ! i) = ''Inapplicable (not resource)'') \<and>
    (\<not> (property_type (reproducibility_properties contrib ! i) = ''url'' \<and>
        is_repo_url (reproducibility_properties contrib ! i)) \<longrightarrow>
       pe_license (ce_properties ev ! i) = 100 \<and>
       pe_license_reason (ce_properties ev ! i) = ''Inapplicable (not repo URL)'')"
proof -
  let ?ps = "reproducibility_properties contrib"
  have es: "ce_properties ev = fst (evaluate_properties net check_access check_lic contrib ?ps hist)"
    using res by (rule evaluate_contribution_properties)
  obtain h' where e: "ce_properties ev ! i =
      fst (evaluate_property net check_access check_lic contrib (?ps ! i) h')"
    using evaluate_properties_nth [OF i] es by metis
  have len: "length (ce_properties ev) = length ?ps"
    by (simp add: es evaluate_properties_length)
  show ?thesis
    unfolding e evaluate_property_fields
    using len by (simp add: accessibility_def linkability_def license_def)
qed

theorem inapplicable_pillars_witness:
  "fst (evaluate_contribution net_down contrib_sample True True []) \<noteq> None \<and>
   (1::nat) < length (reproducibility_properties contrib_sample) \<and>
   property_type (reproducibility_properties contrib_sample ! 1) = ''resource'' \<and>
   pe_accessibility
     (ce_properties (the (fst (evaluate_contribution net_down contrib_sample True True []))) ! 1) = 100 \<and>
   pe_license
     (ce_properties (the (fst (evaluate_contribution net_down contrib_sample True True []))) ! 1) = 100"
proof -
  obtain ev where ev: "fst (evaluate_contribution net_down contrib_sample True True []) = Some ev"
    using evaluate_contribution_result by blast
  have i: "(1::nat) < length (reproducibility_properties contrib_sample)"
    by code_simp
  have t: "property_type (reproducibility_properties contrib_sample ! 1) = ''resource''"
    by code_simp
  from inapplicable_pillars [OF ev i] t ev i show ?thesis by simp
qed

text \<open>
  Claim C8. Every evaluation of a contribution returns a result. Its property
  evaluations are those of the contribution's properties, in order; its four pillar
  scores are the trimmed means \<open>calc_mean\<close> of their four score columns; its overall
  score is the unweighted mean of the four pillar scores as \<open>statistics.mean\<close>
  computes it, that is their exact arithmetic mean rounded to the nearest float; and
  the overall score lies between 0 and 100.
\<close>

theorem overall_mean_bounded:
  "\<exists>ev. fst (evaluate_contribution net contrib check_access check_lic hist) = Some ev \<and>
     ce_properties ev =
       fst (evaluate_properties net check_access check_lic contrib
              (reproducibility_properties contrib) hist) \<and>
     length (ce_properties ev) = length (reproducibility_properties contrib) \<and>
     map pe_availability (ce_properties ev) =
       map (\<lambda>p. fst (availability (prop_value p))) (reproducibility_properties contrib) \<and>
     map pe_linkability (ce_properties ev) =
       map (\<lambda>p. fst (linkability p)) (reproducibility_properties contrib) \<and>
     (\<forall>i < length (reproducibility_properties contrib).
        \<exists>h. ce_properties ev ! i =
          fst (evaluate_property net check_access check_lic contrib
                 (reproducibility_properties contrib ! i) h)) \<and>
     calc_mean (map pe_availability (ce_properties ev)) = Some (ce_availability ev) \<and>
     calc_mean (map pe_accessibility (ce_properties ev)) = Some (ce_accessibility ev) \<and>
     calc_mean (map pe_linkability (ce_properties ev)) = Some (ce_linkability ev) \<and>
     calc_mean (map pe_license (ce_properties ev)) = Some (ce_license ev) \<and>
     statistics_mean [ce_availability ev, ce_accessibility ev, ce_linkability ev, ce_license ev] =
       Some (ce_overall ev) \<and>
     ce_overall ev =
       float_round
         ((ce_availability ev + ce_accessibility ev + ce_linkability ev + ce_license ev) / 4) \<and>
     0 \<le> ce_overall ev \<and> ce_overall ev \<le> 100"
proof -
  let ?ps = "reproducibility_properties contrib"
  let ?es = "fst (evaluate_properties net check_access check_lic contrib ?ps hist)"
  obtain ev where ev:
    "fst (evaluate_contribution net contrib check_access check_lic hist) = Some ev"
    "ce_properties ev = ?es"
    "calc_mean (map pe_availability (ce_properties ev)) = Some (ce_availability ev)"
    "calc_mean (map pe_accessibility (ce_properties ev)) = Some (ce_accessibility ev)"
    "calc_mean (map pe_linkability (ce_properties ev)) = Some (ce_linkability ev)"
    "calc_mean (map pe_license (ce_properties ev)) = Some (ce_license ev)"
    "statistics_mean [ce_availability ev, ce_accessibility ev, ce_linkability ev, ce_license ev] =
       Some (ce_overall ev)"
    "ce_overall ev =
       float_round
         ((ce_availability ev + ce_accessibility ev + ce_linkability ev + ce_license ev) / 4)"
    "0 \<le> ce_overall ev" "ce_overall ev \<le> 100"
    using evaluate_contribution_result [of net contrib check_access check_lic hist] by blast
  have len: "length (ce_properties ev) = length ?ps"
    by (simp add: ev(2) evaluate_properties_length)
  have av: "map pe_availability (ce_properties ev) =
      map (\<lambda>p. fst (availability (prop_value p))) ?ps"
    by (simp only: ev(2) evaluate_properties_availability)
  have li: "map pe_linkability (ce_properties ev) = map (\<lambda>p. fst (linkability p)) ?ps"
    by (simp only: ev(2) evaluate_properties_linkability)
  have nth: "\<forall>i < length ?ps. \<exists>h. ce_properties ev ! i =
      fst (evaluate_property net check_access check_lic contrib (?ps ! i) h)"
    unfolding ev(2) using evaluate_properties_nth by blast
  from ev len av li nth show ?thesis by blast
qed

theorem overall_mean_bounded_witness:
  "fst (evaluate_contribution net_down contrib_sample True True []) \<noteq> None \<and>
   0 \<le> ce_overall (the (fst (evaluate_contribution net_down contrib_sample True True []))) \<and>
   ce_overall (the (fst (evaluate_contribution net_down contrib_sample True True []))) \<le> 100"
proof -
  from overall_mean_bounded [of net_down contrib_sample True True "[]"]
  obtain ev where "fst (evaluate_contribution net_down contrib_sample True True []) = Some ev"
    "0 \<le> ce_overall ev" "ce_overall ev \<le> 100"
    by blast
  then show ?thesis by simp
qed

lemma offline_property:
  "evaluate_property net1 False False c p h1 =
     (fst (evaluate_property net2 False False c p h2), h1)"
  by (simp add: evaluate_property_def accessibility_def license_def Let_def case_prod_beta)

lemma offline_property_fst:
  "fst (evaluate_property net1 False False c p h1) =
   fst (evaluate_property net2 False False c p h2)"
  using offline_property [of net1 c p h1 net2 h2] by simp

lemma offline_property_snd:
  "snd (evaluate_property net False False c p h) = h"
  using offline_property [of net c p h net h] by (metis snd_conv)

lemma offline_properties_fst:
  "fst (evaluate_properties net1 False False c ps h1) =
   fst (evaluate_properties net2 False False c ps h2)"
proof (induction ps arbitrary: h1 h2)
  case Nil
  show ?case by simp
next
  case (Cons p ps)
  show ?case
    using Cons.IH [of "snd (evaluate_property net1 False False c p h1)"
                      "snd (evaluate_property net2 False False c p h2)"]
          offline_property_fst [of net1 c p h1 net2 h2]
    by (simp add: case_prod_beta Let_def)
qed

lemma offline_properties_snd:
  "snd (evaluate_properties net False False c ps h) = h"
  by (induction ps arbitrary: h) (simp_all add: case_prod_beta Let_def offline_property_snd)

lemma evaluate_contribution_fst_cong:
  assumes "fst (evaluate_properties net1 ca1 cl1 c (reproducibility_properties c) h1) =
           fst (evaluate_properties net2 ca2 cl2 c (reproducibility_properties c) h2)"
  shows "fst (evaluate_contribution net1 c ca1 cl1 h1) = fst (evaluate_contribution net2 c ca2 cl2 h2)"
  unfolding evaluate_contribution_def Let_def case_prod_beta fst_conv assms
  by (rule refl)

lemma evaluate_contribution_snd:
  "snd (evaluate_contribution net c ca cl h) =
   snd (evaluate_properties net ca cl c (reproducibility_properties c) h)"
  by (simp add: evaluate_contribution_def Let_def case_prod_beta)

text \<open>
  Claim C9. With both live checks switched off, the evaluation of a contribution makes no
  probe (the history of probes comes back unchanged) and its result is the same for
  every network and every history: it is a function of the contribution alone.
\<close>

theorem offline_evaluation_deterministic:
  "fst (evaluate_contribution net1 contrib False False hist1) =
   fst (evaluate_contribution net2 contrib False False hist2) \<and>
   snd (evaluate_contribution net1 contrib False False hist1) = hist1"
  using evaluate_contribution_fst_cong [OF offline_properties_fst]
  by (simp add: evaluate_contribution_snd offline_properties_snd)

theorem offline_evaluation_deterministic_witness:
  "fst (evaluate_contribution net_up contrib_sample False False []) =
   fst (evaluate_contribution net_down contrib_sample False False [Url_probe ''https://orkg.org'']) \<and>
   snd (evaluate_contribution net_up contrib_sample False False []) = []"
  using offline_evaluation_deterministic
    [of net_up contrib_sample "[]" net_down "[Url_probe ''https://orkg.org'']"]
  by simp





section \<open>Properties of the collector\<close>

lemma accept_fields:
  "length (contributions (accept pap contrib ap rp ct st)) = Suc (length (contributions st))"
  "page (accept pap contrib ap rp ct st) = page st"
  "iterations (accept pap contrib ap rp ct st) = iterations st"
  by (simp_all add: accept_def)

lemma scan_contributions_cap:
  "int (length (contributions st)) \<le> max 0 cap \<Longrightarrow>
   int (length (contributions (scan_contributions m cap fb pap cs st))) \<le> max 0 cap"
proof (induction cs arbitrary: st)
  case Nil
  then show ?case by simp
next
  case (Cons c cs)
  show ?case
  proof (cases "stop_scan m cap st")
    case True
    with Cons.prems show ?thesis by simp
  next
    case False
    then have below: "int (length (contributions st)) < cap"
      by (simp add: stop_scan_def)
    have acc: "\<And>ap rp ct. int (length (contributions (accept pap c ap rp ct st))) \<le> max 0 cap"
      using below by (simp add: accept_fields)
    show ?thesis
      using False Cons.IH [OF Cons.prems] Cons.IH [OF acc]
      by (simp add: Let_def)
  qed
qed

lemma scan_papers_cap:
  "int (length (contributions st)) \<le> max 0 cap \<Longrightarrow>
   int (length (contributions (scan_papers m cap fb ps st))) \<le> max 0 cap"
proof (induction ps arbitrary: st)
  case Nil
  then show ?case by simp
next
  case (Cons pap ps)
  show ?case
    using Cons.prems Cons.IH [OF scan_contributions_cap [OF Cons.prems]]
    by simp
qed

lemma collect_loop_cap:
  "int (length (contributions st)) \<le> max 0 cap \<Longrightarrow>
   int (length (contributions (collect_loop m cap fp fb st))) \<le> max 0 cap"
proof (induction m cap fp fb st rule: collect_loop.induct)
  case (1 m cap fp fb st)
  show ?case
  proof (cases "\<not> is_balanced (type_counts st) m \<and> page st < max_pages \<and>
      int (length (contributions st)) < cap")
    case False
    then have "collect_loop m cap fp fb st = st"
      by (subst collect_loop.simps) auto
    with "1.prems" show ?thesis by simp
  next
    case True
    show ?thesis
    proof (cases "fp (page st)")
      case None
      with True have "collect_loop m cap fp fb st = st \<lparr> iterations := iterations st + 1 \<rparr>"
        by (subst collect_loop.simps) simp
      with "1.prems" show ?thesis by simp
    next
      case (Some papers)
      show ?thesis
      proof (cases "papers = []")
        case e: True
        with True Some have "collect_loop m cap fp fb st = st \<lparr> iterations := iterations st + 1 \<rparr>"
          by (subst collect_loop.simps) simp
        with "1.prems" show ?thesis by simp
      next
        case ne: False
        let ?st' = "(scan_papers m cap fb papers st)
                      \<lparr> page := page st + 1, iterations := iterations st + 1 \<rparr>"
        have eq: "collect_loop m cap fp fb st = collect_loop m cap fp fb ?st'"
          using True Some ne by (subst collect_loop.simps) simp
        have "int (length (contributions ?st')) \<le> max 0 cap"
          using scan_papers_cap [OF "1.prems"] by simp
        from "1.IH" [OF True Some ne this] eq show ?thesis by simp
      qed
    qed
  qed
qed

lemma collect_loop_iterations:
  "iterations (collect_loop m cap fp fb st) \<le> iterations st + (max_pages - page st) \<and>
   page (collect_loop m cap fp fb st) \<le> max (page st) max_pages"
proof (induction m cap fp fb st rule: collect_loop.induct)
  case (1 m cap fp fb st)
  show ?case
  proof (cases "\<not> is_balanced (type_counts st) m \<and> page st < max_pages \<and>
      int (length (contributions st)) < cap")
    case False
    then have "collect_loop m cap fp fb st = st"
      by (subst collect_loop.simps) auto
    then show ?thesis by simp
  next
    case True
    show ?thesis
    proof (cases "fp (page st)")
      case None
      with True have "collect_loop m cap fp fb st = st \<lparr> iterations := iterations st + 1 \<rparr>"
        by (subst collect_loop.simps) simp
      with True show ?thesis by auto
    next
      case (Some papers)
      show ?thesis
      proof (cases "papers = []")
        case e: True
        with True Some have "collect_loop m cap fp fb st = st \<lparr> iterations := iterations st + 1 \<rparr>"
          by (subst collect_loop.simps) simp
        with True show ?thesis by auto
      next
        case ne: False
        let ?st' = "(scan_papers m cap fb papers st)
                      \<lparr> page := page st + 1, iterations := iterations st + 1 \<rparr>"
        have eq: "collect_loop m cap fp fb st = collect_loop m cap fp fb ?st'"
          using True Some ne by (subst collect_loop.simps) simp
        from "1.IH" [OF True Some ne] eq True show ?thesis by auto
      qed
    qed
  qed
qed

lemma scan_contributions_cong:
  assumes "\<And>cid. (case fb1 cid of None \<Rightarrow> [] | Some ss \<Rightarrow> ss) =
                 (case fb2 cid of None \<Rightarrow> [] | Some ss \<Rightarrow> ss)"
  shows "scan_contributions m cap fb1 pap cs st = scan_contributions m cap fb2 pap cs st"
proof (induction cs arbitrary: st)
  case Nil
  show ?case by simp
next
  case (Cons c cs)
  show ?case
    unfolding scan_contributions.simps assms Cons.IH by (rule refl)
qed

lemma scan_papers_cong:
  assumes "\<And>cid. (case fb1 cid of None \<Rightarrow> [] | Some ss \<Rightarrow> ss) =
                 (case fb2 cid of None \<Rightarrow> [] | Some ss \<Rightarrow> ss)"
  shows "scan_papers m cap fb1 ps st = scan_papers m cap fb2 ps st"
proof (induction ps arbitrary: st)
  case Nil
  show ?case by simp
next
  case (Cons pap ps)
  show ?case
    unfolding scan_papers.simps scan_contributions_cong [of fb1 fb2, OF assms] Cons.IH
    by (rule refl)
qed

lemma collect_loop_cong:
  assumes "\<And>cid. (case fb1 cid of None \<Rightarrow> [] | Some ss \<Rightarrow> ss) =
                 (case fb2 cid of None \<Rightarrow> [] | Some ss \<Rightarrow> ss)"
  shows "collect_loop m cap fp fb1 st = collect_loop m cap fp fb2 st"
  using assms
proof (induction m cap fp fb1 st rule: collect_loop.induct)
  case (1 m cap fp fb1 st)
  note agree = "1.prems"
  show ?case
  proof (cases "\<not> is_balanced (type_counts st) m \<and> page st < max_pages \<and>
      int (length (contributions st)) < cap")
    case False
    then have "collect_loop m cap fp fb1 st = st" "collect_loop m cap fp fb2 st = st"
      by (subst collect_loop.simps, auto)+
    then show ?thesis by simp
  next
    case True
    show ?thesis
    proof (cases "fp (page st)")
      case None
      with True have "collect_loop m cap fp fb1 st = st \<lparr> iterations := iterations st + 1 \<rparr>"
        "collect_loop m cap fp fb2 st = st \<lparr> iterations := iterations st + 1 \<rparr>"
        by (subst collect_loop.simps, simp)+
      then show ?thesis by simp
    next
      case (Some papers)
      show ?thesis
      proof (cases "papers = []")
        case e: True
        with True Some have "collect_loop m cap fp fb1 st = st \<lparr> iterations := iterations st + 1 \<rparr>"
          "collect_loop m cap fp fb2 st = st \<lparr> iterations := iterations st + 1 \<rparr>"
          by (subst collect_loop.simps, simp)+
        then show ?thesis by simp
      next
        case ne: False
        let ?st1 = "(scan_papers m cap fb1 papers st)
                      \<lparr> page := page st + 1, iterations := iterations st + 1 \<rparr>"
        let ?st2 = "(scan_papers m cap fb2 papers st)
                      \<lparr> page := page st + 1, iterations := iterations st + 1 \<rparr>"
        have eq1: "collect_loop m cap fp fb1 st = collect_loop m cap fp fb1 ?st1"
          using True Some ne by (subst collect_loop.simps) simp
        have eq2: "collect_loop m cap fp fb2 st = collect_loop m cap fp fb2 ?st2"
          using True Some ne by (subst collect_loop.simps) simp
        have st: "?st1 = ?st2"
          using scan_papers_cong [of fb1 fb2, OF agree] by simp
        from "1.IH" [OF True Some ne agree] have
          "collect_loop m cap fp fb1 ?st1 = collect_loop m cap fp fb2 ?st1" .
        with eq1 eq2 st show ?thesis by simp
      qed
    qed
  qed
qed

text \<open>
  Claim C3, as stated, fails: a failed request for a page ends the collection. Here the
  request for page 0 fails; the collection returns nothing and never asks for page 1,
  although the collector accepts a contribution of page 1 when it starts there.
\<close>

theorem page_failure_counterexample:
  "pages_first_fails 0 = None \<and>
   collect_contributions 1 10 pages_first_fails bundles_sample = [] \<and>
   page (collect_loop 1 10 pages_first_fails bundles_sample initial) = 0 \<and>
   map contribution_id
     (contributions (collect_loop 1 10 pages_first_fails bundles_sample (initial \<lparr> page := 1 \<rparr>))) =
     [''R1001'']"
  by code_simp

text \<open>
  Claim C3, amended. A failed request for the statements of a contribution is no data
  for that contribution alone: scanning goes on with the next contribution, and the
  whole collection is the same as if the request had answered with no statements. A
  failed request for a page ends the loop over the pages without an error: the
  collection returns the contributions and counts it had before that request.
\<close>

theorem transport_failure_effects:
  "(fetch_bundle (rc_id contrib) = None \<and> \<not> stop_scan m cap st \<longrightarrow>
      scan_contributions m cap fetch_bundle pap (contrib # rest) st =
      scan_contributions m cap fetch_bundle pap rest st) \<and>
   collect_loop m cap fetch_page (fetch_bundle (cid := None)) st =
     collect_loop m cap fetch_page (fetch_bundle (cid := Some [])) st \<and>
   (fetch_page (page st) = None \<longrightarrow>
      contributions (collect_loop m cap fetch_page fetch_bundle st) = contributions st \<and>
      type_counts (collect_loop m cap fetch_page fetch_bundle st) = type_counts st \<and>
      page (collect_loop m cap fetch_page fetch_bundle st) = page st)"
proof (intro conjI impI)
  assume "fetch_bundle (rc_id contrib) = None \<and> \<not> stop_scan m cap st"
  then show "scan_contributions m cap fetch_bundle pap (contrib # rest) st =
      scan_contributions m cap fetch_bundle pap rest st"
    by simp
next
  show "collect_loop m cap fetch_page (fetch_bundle (cid := None)) st =
     collect_loop m cap fetch_page (fetch_bundle (cid := Some [])) st"
    by (rule collect_loop_cong) simp
next
  assume f: "fetch_page (page st) = None"
  have "collect_loop m cap fetch_page fetch_bundle st = st \<or>
        collect_loop m cap fetch_page fetch_bundle st = st \<lparr> iterations := iterations st + 1 \<rparr>"
    using f by (subst (1 2) collect_loop.simps) simp
  then show "contributions (collect_loop m cap fetch_page fetch_bundle st) = contributions st"
    "type_counts (collect_loop m cap fetch_page fetch_bundle st) = type_counts st"
    "page (collect_loop m cap fetch_page fetch_bundle st) = page st"
    by auto
qed

theorem transport_failure_effects_witness:
  "bundles_sample (rc_id \<lparr> rc_id = ''R1000'', rc_label = ''Contribution 1'' \<rparr>) = None \<and>
   \<not> stop_scan 1 10 initial \<and>
   scan_contributions 1 10 bundles_sample paper_sample
     (\<lparr> rc_id = ''R1000'', rc_label = ''Contribution 1'' \<rparr> # tl (p_contributions paper_sample))
     initial =
   scan_contributions 1 10 bundles_sample paper_sample (tl (p_contributions paper_sample)) initial \<and>
   pages_first_fails (page initial) = None \<and>
   contributions (collect_loop 1 10 pages_first_fails bundles_sample initial) = contributions initial"
proof -
  have h1: "bundles_sample (rc_id \<lparr> rc_id = ''R1000'', rc_label = ''Contribution 1'' \<rparr>) = None"
    by code_simp
  have h2: "\<not> stop_scan 1 10 initial" by code_simp
  have h3: "pages_first_fails (page initial) = None" by code_simp
  from transport_failure_effects
    [of bundles_sample "\<lparr> rc_id = ''R1000'', rc_label = ''Contribution 1'' \<rparr>" 1 10 initial
        paper_sample "tl (p_contributions paper_sample)" pages_first_fails]
    h1 h2 h3
  show ?thesis by blast
qed

text \<open>
  Claim C7. For every page source, bundle source, target and cap, the collection is
  defined: the loop over the pages is a total function, so it terminates. The accepted
  list never holds more contributions than the cap allows (with a cap below 0 it stays
  empty), and the body of the loop over the pages is entered at most \<open>max_pages\<close>, that
  is 1000, times, whether or not the target is ever reached.
\<close>

theorem collection_bounded:
  "(0 \<le> max_contributions \<longrightarrow>
      int (length (collect_contributions min_per_type max_contributions fetch_page fetch_bundle))
        \<le> max_contributions) \<and>
   int (length (collect_contributions min_per_type max_contributions fetch_page fetch_bundle))
     \<le> max 0 max_contributions \<and>
   iterations (collect_loop min_per_type max_contributions fetch_page fetch_bundle initial)
     \<le> max_pages \<and>
   page (collect_loop min_per_type max_contributions fetch_page fetch_bundle initial)
     \<le> max_pages \<and>
   max_pages = 1000"
proof -
  have "int (length (contributions initial)) \<le> max 0 max_contributions"
    by (simp add: initial_def)
  then have a: "int (length (collect_contributions min_per_type max_contributions
      fetch_page fetch_bundle)) \<le> max 0 max_contributions"
    unfolding collect_contributions_def by (rule collect_loop_cap)
  have b: "iterations (collect_loop min_per_type max_contributions fetch_page fetch_bundle initial)
      \<le> max_pages"
    "page (collect_loop min_per_type max_contributions fetch_page fetch_bundle initial)
      \<le> max_pages"
    using collect_loop_iterations
      [of min_per_type max_contributions fetch_page fetch_bundle initial]
    by (simp_all add: initial_def)
  from a b show ?thesis by (auto simp: max_pages_def)
qed

theorem collection_bounded_witness:
  "(0::int) \<le> 2 \<and>
   length (collect_contributions 40 2 pages_sample bundles_sample) = 2 \<and>
   int (length (collect_contributions 40 2 pages_sample bundles_sample)) \<le> 2 \<and>
   iterations (collect_loop 40 2 pages_sample bundles_sample initial) \<le> max_pages"
proof -
  have v: "length (collect_contributions 40 2 pages_sample bundles_sample) = 2"
    by code_simp
  from collection_bounded [of 2 40 pages_sample bundles_sample] v show ?thesis
    by simp
qed

end
